theory Spec2Isabelle
  imports Main "HOL-Library.Word" "HOL-Library.List_Lexorder"
begin

section \<open>Bytes and keys\<close>

text \<open>
  A Go \<^verbatim>\<open>[]byte\<close> is a list of 8-bit words; a Go \<^verbatim>\<open>string\<close> is a byte sequence
  too, so the conversion \<^verbatim>\<open>[]byte(key)\<close> (and \<^verbatim>\<open>bytesconv.S2B\<close>) is the identity
  of the model. The engine orders keys bytewise (\<^verbatim>\<open>bytes.Compare\<close>): that is the
  lexicographic order on lists of words, with the unsigned order on each byte.
\<close>

type_synonym byte = "8 word"
type_synonym bytes = "byte list"

text \<open>\<^verbatim>\<open>bytes.HasPrefix(s, prefix)\<close>.\<close>

definition HasPrefix :: "bytes \<Rightarrow> bytes \<Rightarrow> bool" where
  "HasPrefix s pre = (take (length pre) s = pre)"

subsection \<open>keyUpperBound\<close>

text \<open>
  The loop of \<^verbatim>\<open>keyUpperBound\<close> runs \<^verbatim>\<open>i\<close> from \<^verbatim>\<open>len(end) - 1\<close> down to 0. The
  second argument of the loop function is \<^verbatim>\<open>i + 1\<close>, so that 0 is the exit
  \<^verbatim>\<open>i < 0\<close>. \<^verbatim>\<open>end[i]++\<close> wraps at 256. The result \<^verbatim>\<open>nil\<close> (no upper bound)
  is \<open>None\<close>; a returned slice \<^verbatim>\<open>end[:i+1]\<close> is never empty.
\<close>

fun keyUpperBound_loop :: "bytes \<Rightarrow> nat \<Rightarrow> bytes option" where
  "keyUpperBound_loop end 0 = None"
| "keyUpperBound_loop end (Suc i) =
     (let end' = end[i := end ! i + 1] in
      if end' ! i \<noteq> 0 then Some (take (Suc i) end')
      else keyUpperBound_loop end' i)"

definition keyUpperBound :: "bytes \<Rightarrow> bytes option" where
  "keyUpperBound b = keyUpperBound_loop b (length b)"

text \<open>
  The upper bound in the words of the specification: drop the trailing \<^verbatim>\<open>0xFF\<close>
  bytes, then increment the last byte that is left; no bound when nothing is left.
\<close>

definition UpperBound_spec :: "bytes \<Rightarrow> bytes option" where
  "UpperBound_spec pre =
     (let s = rev (dropWhile (\<lambda>x. x = 0xFF) (rev pre)) in
      if s = [] then None else Some (butlast s @ [last s + 1]))"

text \<open>The closed-open key range \<open>[lo, hi)\<close> of an iterator; \<open>None\<close> is no upper bound.\<close>

definition in_range :: "bytes \<Rightarrow> bytes option \<Rightarrow> bytes \<Rightarrow> bool" where
  "in_range lo hi k = (lo \<le> k \<and> (case hi of None \<Rightarrow> True | Some u \<Rightarrow> k < u))"

text \<open>\<^verbatim>\<open>prefixIterOptions\<close>: the pair \<open>(LowerBound, UpperBound)\<close>.\<close>

definition prefixIterOptions :: "bytes \<Rightarrow> bytes \<times> bytes option" where
  "prefixIterOptions pre = (pre, keyUpperBound pre)"

section \<open>Errors\<close>

text \<open>
  A Go \<^verbatim>\<open>error\<close> value that may be \<^verbatim>\<open>nil\<close> is an \<open>error option\<close>.
  \<open>Errorf fmt args e\<close> is \<^verbatim>\<open>xerrors.Errorf(fmt, args..., e)\<close> with the verb
  \<^verbatim>\<open>%w\<close> wrapping \<open>e\<close>; \<open>MultiErr\<close> is the combined error of
  \<^verbatim>\<open>go.uber.org/multierr\<close>. \<open>EngineError\<close> and \<open>JSONError\<close> stand for the
  errors of the engine (other than not-found) and of \<^verbatim>\<open>encoding/json\<close>.
\<close>

datatype error =
    ErrNotFound
  | ErrPeerNotFound
  | EngineError nat
  | JSONError nat
  | Errorf string "bytes list" error
  | MultiErr "error list"

text \<open>\<^verbatim>\<open>xerrors.Is\<close>: the error or one it wraps is the target.\<close>

fun xerrors_Is :: "error \<Rightarrow> error \<Rightarrow> bool" where
  "xerrors_Is (Errorf fmt args e) t = (Errorf fmt args e = t \<or> xerrors_Is e t)"
| "xerrors_Is e t = (e = t)"

fun multierr_Errors :: "error \<Rightarrow> error list" where
  "multierr_Errors (MultiErr es) = es"
| "multierr_Errors e = [e]"

text \<open>
  \<^verbatim>\<open>multierr.Append(left, right)\<close>; \<^verbatim>\<open>multierr.AppendInto(&rerr, err)\<close> is
  \<open>rerr := multierr_Append rerr err\<close>.
\<close>

fun multierr_Append :: "error option \<Rightarrow> error option \<Rightarrow> error option" where
  "multierr_Append None r = r"
| "multierr_Append l None = l"
| "multierr_Append (Some l) (Some r) = Some (MultiErr (multierr_Errors l @ multierr_Errors r))"

section \<open>The collaborators of package storage\<close>

text \<open>
  Package \<^verbatim>\<open>storage\<close> (the peer type, its key, \<^verbatim>\<open>KeyPrefix\<close>, \<^verbatim>\<open>KeyFromPeer\<close>,
  \<^verbatim>\<open>Bytes\<close>, \<^verbatim>\<open>Keys\<close>) and the JSON encoding of a peer are not among the
  sources. The operations take them as a parameter: \<open>'p\<close> is \<^verbatim>\<open>storage.Peer\<close>,
  \<open>'k\<close> is \<^verbatim>\<open>storage.PeerKey\<close> (\<^verbatim>\<open>storage.Key\<close> in the second file).
  \<open>Bytes c k\<close> is \<^verbatim>\<open>k.Bytes(nil)\<close>. \<open>Unmarshal c data dst\<close> is
  \<^verbatim>\<open>json.Unmarshal(data, &dst)\<close>: it returns what \<open>dst\<close> holds afterwards (which
  may depend on what it held before) and the error.
\<close>

record ('p, 'k) collab =
  KeyPrefix :: bytes
  KeyFromPeer :: "'p \<Rightarrow> 'k"
  Bytes :: "'k \<Rightarrow> bytes"
  Keys :: "'p \<Rightarrow> bytes list"
  Marshal :: "'p \<Rightarrow> error + bytes"
  Unmarshal :: "bytes \<Rightarrow> 'p \<Rightarrow> 'p \<times> error option"
  zeroPeer :: "'p"

section \<open>The engine\<close>

text \<open>
  The engine (\<^verbatim>\<open>github.com/cockroachdb/pebble\<close>) is an ordered key-value store.
  Its committed content is a list of entries in ascending key order; \<open>kv_set\<close> writes
  or overwrites one entry and keeps the order. A snapshot is the content at the time
  it was taken.
\<close>

type_synonym kvstore = "(bytes \<times> bytes) list"

fun kv_set :: "bytes \<Rightarrow> bytes \<Rightarrow> kvstore \<Rightarrow> kvstore" where
  "kv_set k v [] = [(k, v)]"
| "kv_set k v ((k', v') # rest) =
     (if k < k' then (k, v) # (k', v') # rest
      else if k = k' then (k, v) # rest
      else (k', v') # kv_set k v rest)"

definition kv_get :: "kvstore \<Rightarrow> bytes \<Rightarrow> bytes option" where
  "kv_get db k = map_of db k"

definition kv_ordered :: "kvstore \<Rightarrow> bool" where
  "kv_ordered db = sorted_wrt (<) (map fst db)"

text \<open>
  Any call of the engine may fail. The failures are injected: \<open>read_fault f k\<close> is the
  error of reading key \<open>k\<close> (by \<^verbatim>\<open>Get\<close> or by an iterator that reaches \<open>k\<close>), the
  other fields are the errors of \<^verbatim>\<open>DB.Set\<close>, \<^verbatim>\<open>Batch.Set\<close>, \<^verbatim>\<open>Batch.Commit\<close>,
  \<^verbatim>\<open>Batch.Close\<close>, of the closer that \<^verbatim>\<open>Get\<close> returns, of \<^verbatim>\<open>Snapshot.Close\<close>
  and of \<^verbatim>\<open>Iterator.Close\<close>; \<open>None\<close> is success.
\<close>

record faults =
  read_fault :: "bytes \<Rightarrow> error option"
  set_fault :: "bytes \<Rightarrow> error option"
  batch_set_fault :: "bytes \<Rightarrow> error option"
  commit_fault :: "error option"
  batch_close_fault :: "error option"
  closer_fault :: "error option"
  snap_close_fault :: "error option"
  iter_close_fault :: "error option"

definition no_faults :: faults where
  "no_faults = \<lparr> read_fault = (\<lambda>k. None), set_fault = (\<lambda>k. None),
     batch_set_fault = (\<lambda>k. None), commit_fault = None, batch_close_fault = None,
     closer_fault = None, snap_close_fault = None, iter_close_fault = None \<rparr>"

text \<open>\<^verbatim>\<open>DB.Get\<close> and \<^verbatim>\<open>Snapshot.Get\<close>: the value, or the error.\<close>

definition DB_Get :: "faults \<Rightarrow> kvstore \<Rightarrow> bytes \<Rightarrow> error + bytes" where
  "DB_Get f db k =
     (case read_fault f k of
        Some e \<Rightarrow> Inl e
      | None \<Rightarrow> (case kv_get db k of None \<Rightarrow> Inl ErrNotFound | Some v \<Rightarrow> Inr v))"

text \<open>\<^verbatim>\<open>DB.Set\<close>: a failed write leaves the content as it was.\<close>

definition DB_Set :: "faults \<Rightarrow> bytes \<Rightarrow> bytes \<Rightarrow> kvstore \<Rightarrow> error option \<times> kvstore" where
  "DB_Set f k v db =
     (case set_fault f k of Some e \<Rightarrow> (Some e, db) | None \<Rightarrow> (None, kv_set k v db))"

text \<open>
  A batch is the list of its writes, in the order they were added.
  \<^verbatim>\<open>Batch.Commit\<close> applies all of them in that order, or none when it fails.
\<close>

definition Batch_apply :: "(bytes \<times> bytes) list \<Rightarrow> kvstore \<Rightarrow> kvstore" where
  "Batch_apply b db = fold (\<lambda>(k, v). kv_set k v) b db"

definition Batch_Commit ::
  "faults \<Rightarrow> (bytes \<times> bytes) list \<Rightarrow> kvstore \<Rightarrow> error option \<times> kvstore" where
  "Batch_Commit f b db =
     (case commit_fault f of Some e \<Rightarrow> (Some e, db) | None \<Rightarrow> (None, Batch_apply b db))"

text \<open>
  An iterator of the engine: the entries of its snapshot within its bounds that it
  has not passed, the first of them being its position. It is valid when it has a
  position and reading that entry did not fail; its error is that read's error.
  \<^verbatim>\<open>Next\<close> moves a valid iterator and returns whether the new position is valid.
  \<^verbatim>\<open>Close\<close> returns the iterator's error, if it has one.
\<close>

record pebbleIter =
  remaining :: kvstore
  iter_fault :: "bytes \<Rightarrow> error option"

definition Snapshot_NewIter :: "faults \<Rightarrow> kvstore \<Rightarrow> bytes \<times> bytes option \<Rightarrow> pebbleIter" where
  "Snapshot_NewIter f snap opts =
     \<lparr> remaining = filter (\<lambda>(k, v). in_range (fst opts) (snd opts) k) snap,
       iter_fault = read_fault f \<rparr>"

definition Iterator_Error :: "pebbleIter \<Rightarrow> error option" where
  "Iterator_Error it = (case remaining it of [] \<Rightarrow> None | (k, v) # _ \<Rightarrow> iter_fault it k)"

definition Iterator_Valid :: "pebbleIter \<Rightarrow> bool" where
  "Iterator_Valid it = (remaining it \<noteq> [] \<and> Iterator_Error it = None)"

definition Iterator_Key :: "pebbleIter \<Rightarrow> bytes" where
  "Iterator_Key it = (case remaining it of [] \<Rightarrow> [] | (k, v) # _ \<Rightarrow> k)"

definition Iterator_Value :: "pebbleIter \<Rightarrow> bytes" where
  "Iterator_Value it = (case remaining it of [] \<Rightarrow> [] | (k, v) # _ \<Rightarrow> v)"

definition Iterator_Next :: "pebbleIter \<Rightarrow> pebbleIter" where
  "Iterator_Next it = (if Iterator_Valid it then it\<lparr>remaining := tl (remaining it)\<rparr> else it)"

definition Iterator_Close :: "faults \<Rightarrow> pebbleIter \<Rightarrow> error option" where
  "Iterator_Close f it =
     (case Iterator_Error it of Some e \<Rightarrow> Some e | None \<Rightarrow> iter_close_fault f)"

section \<open>The peer storage with an iterator\<close>

text \<open>
  The operations of the source file that defines \<^verbatim>\<open>Iterate\<close> (receiver \<^verbatim>\<open>s\<close>).
  An operation takes the collaborators \<open>c\<close>, the injected failures \<open>f\<close> and the
  content \<open>db\<close> of \<^verbatim>\<open>s.pebble\<close>; a writing operation returns its error and the new
  content, a reading one the pair \<^verbatim>\<open>(storage.Peer, error)\<close> that the Go function
  returns. The deferred calls run when the function returns, last deferred first.
\<close>

definition add ::
  "('p, 'k) collab \<Rightarrow> faults \<Rightarrow> bytes list \<Rightarrow> 'p \<Rightarrow> kvstore \<Rightarrow> error option \<times> kvstore" where
  "add c f associated val db =
     (case Marshal c val of
        Inl err \<Rightarrow> (Some (Errorf ''marshal: %w'' [] err), db)
      | Inr data \<Rightarrow>
          (let id' = Bytes c (KeyFromPeer c val);
               b = (id', data) # map (\<lambda>key. (key, id')) associated
           in case Batch_Commit f b db of
                (Some err, db') \<Rightarrow>
                  (multierr_Append (Some (Errorf ''commit: %w'' [] err)) (batch_close_fault f), db')
              | (None, db') \<Rightarrow> (multierr_Append None (batch_close_fault f), db')))"

definition Add :: "('p, 'k) collab \<Rightarrow> faults \<Rightarrow> 'p \<Rightarrow> kvstore \<Rightarrow> error option \<times> kvstore" where
  "Add c f val db = add c f (Keys c val) val db"

definition Assign ::
  "('p, 'k) collab \<Rightarrow> faults \<Rightarrow> bytes \<Rightarrow> 'p \<Rightarrow> kvstore \<Rightarrow> error option \<times> kvstore" where
  "Assign c f key val db = add c f (Keys c val @ [key]) val db"

definition Find :: "('p, 'k) collab \<Rightarrow> faults \<Rightarrow> 'k \<Rightarrow> kvstore \<Rightarrow> 'p \<times> error option" where
  "Find c f key db =
     (let id' = Bytes c key in
      case DB_Get f db id' of
        Inl err \<Rightarrow>
          if xerrors_Is err ErrNotFound then (zeroPeer c, Some ErrPeerNotFound)
          else (zeroPeer c, Some (Errorf ''get %q: %w'' [id'] err))
      | Inr data \<Rightarrow>
          (case Unmarshal c data (zeroPeer c) of
             (b, Some err) \<Rightarrow>
               (zeroPeer c, multierr_Append (Some (Errorf ''unmarshal: %w'' [] err)) (closer_fault f))
           | (b, None) \<Rightarrow> (b, multierr_Append None (closer_fault f))))"

definition Resolve :: "('p, 'k) collab \<Rightarrow> faults \<Rightarrow> bytes \<Rightarrow> kvstore \<Rightarrow> 'p \<times> error option" where
  "Resolve c f key db =
     (let snap = db in
      case DB_Get f snap key of
        Inl err \<Rightarrow>
          (zeroPeer c,
           multierr_Append
             (Some (if xerrors_Is err ErrNotFound then ErrPeerNotFound
                    else Errorf ''get %q: %w'' [key] err))
             (snap_close_fault f))
      | Inr id' \<Rightarrow>
          (case DB_Get f snap id' of
             Inl err \<Rightarrow>
               (zeroPeer c,
                multierr_Append
                  (multierr_Append
                     (Some (if xerrors_Is err ErrNotFound then ErrPeerNotFound
                            else Errorf ''get %q: %w'' [id'] err))
                     (closer_fault f))
                  (snap_close_fault f))
           | Inr data \<Rightarrow>
               (case Unmarshal c data (zeroPeer c) of
                  (b, Some err) \<Rightarrow>
                    (zeroPeer c,
                     multierr_Append
                       (multierr_Append
                          (multierr_Append (Some (Errorf ''unmarshal: %w'' [] err)) (closer_fault f))
                          (closer_fault f))
                       (snap_close_fault f))
                | (b, None) \<Rightarrow>
                    (b,
                     multierr_Append
                       (multierr_Append (multierr_Append None (closer_fault f)) (closer_fault f))
                       (snap_close_fault f)))))"

subsection \<open>The cursor\<close>

record 'p pebbleIterator =
  it_snap :: kvstore
  it_iter :: pebbleIter
  it_lastErr :: "error option"
  it_value :: 'p

text \<open>
  \<^verbatim>\<open>Iterate\<close> takes a snapshot, opens an iterator on it with the bounds of
  \<^verbatim>\<open>storage.KeyPrefix\<close> and positions it on the first entry. The fields \<^verbatim>\<open>lastErr\<close>
  and \<^verbatim>\<open>value\<close> start as Go's zero values.
\<close>

definition Iterate ::
  "('p, 'k) collab \<Rightarrow> faults \<Rightarrow> kvstore \<Rightarrow> 'p pebbleIterator \<times> error option" where
  "Iterate c f db =
     (let snap = db;
          iter = Snapshot_NewIter f snap (prefixIterOptions (KeyPrefix c))
      in (\<lparr> it_snap = snap, it_iter = iter, it_lastErr = None, it_value = zeroPeer c \<rparr>, None))"

lemma Iterator_Next_shorter:
  "Iterator_Valid (Iterator_Next it) \<Longrightarrow>
   length (remaining (Iterator_Next it)) < length (remaining it)"
  by (cases "remaining it") (auto simp: Iterator_Next_def Iterator_Valid_def split: if_splits)

text \<open>
  The \<^verbatim>\<open>for\<close> loop of \<^verbatim>\<open>Next\<close>: it leaves with \<open>True\<close> at the \<^verbatim>\<open>break\<close> and with
  \<open>False\<close> where the method returns false.
\<close>

function skip_loop :: "bytes \<Rightarrow> pebbleIter \<Rightarrow> bool \<times> pebbleIter" where
  "skip_loop pre it =
     (if HasPrefix (Iterator_Key it) pre then (True, it)
      else (let it' = Iterator_Next it in
            if \<not> Iterator_Valid it' then (False, it') else skip_loop pre it'))"
  by pat_completeness auto
termination
  by (relation "measure (\<lambda>(pre, it). length (remaining it))")
     (auto simp: Iterator_Next_shorter)

definition pebbleIterator_Next ::
  "('p, 'k) collab \<Rightarrow> 'p pebbleIterator \<Rightarrow> bool \<times> 'p pebbleIterator" where
  "pebbleIterator_Next c p =
     (if \<not> Iterator_Valid (it_iter p) then (False, p)
      else case skip_loop (KeyPrefix c) (it_iter p) of
             (False, it') \<Rightarrow> (False, p\<lparr>it_iter := it'\<rparr>)
           | (True, it') \<Rightarrow>
               (case Unmarshal c (Iterator_Value it') (it_value p) of
                  (v, Some err) \<Rightarrow>
                    (False, p\<lparr>it_iter := it', it_value := v,
                               it_lastErr := Some (Errorf ''unmarshal: %w'' [] err)\<rparr>)
                | (v, None) \<Rightarrow>
                    (True, p\<lparr>it_iter := Iterator_Next it', it_value := v\<rparr>)))"

definition pebbleIterator_Err :: "'p pebbleIterator \<Rightarrow> error option" where
  "pebbleIterator_Err p = it_lastErr p"

definition pebbleIterator_Value :: "'p pebbleIterator \<Rightarrow> 'p" where
  "pebbleIterator_Value p = it_value p"

definition pebbleIterator_Close :: "faults \<Rightarrow> 'p pebbleIterator \<Rightarrow> error option" where
  "pebbleIterator_Close f p =
     multierr_Append (Iterator_Close f (it_iter p)) (snap_close_fault f)"

section \<open>The peer storage without an iterator\<close>

text \<open>
  The operations of \<^verbatim>\<open>pebble/peer_storage.go\<close> (receiver \<^verbatim>\<open>r\<close>); they carry the
  suffix \<open>_r\<close>, since the two files use the same names.
\<close>

definition Add_r :: "('p, 'k) collab \<Rightarrow> faults \<Rightarrow> 'p \<Rightarrow> kvstore \<Rightarrow> error option \<times> kvstore" where
  "Add_r c f val db =
     (case Marshal c val of
        Inl err \<Rightarrow> (Some (Errorf ''marshal: %w'' [] err), db)
      | Inr data \<Rightarrow>
          (let id' = Bytes c (KeyFromPeer c val) in
           case DB_Set f id' data db of
             (Some err, db') \<Rightarrow> (Some (Errorf ''set id <-> data: %w'' [] err), db')
           | (None, db') \<Rightarrow> (None, db')))"

definition Find_r :: "('p, 'k) collab \<Rightarrow> faults \<Rightarrow> 'k \<Rightarrow> kvstore \<Rightarrow> 'p \<times> error option" where
  "Find_r c f key db =
     (let id' = Bytes c key in
      case DB_Get f db id' of
        Inl err \<Rightarrow>
          if xerrors_Is err ErrNotFound then (zeroPeer c, Some ErrPeerNotFound)
          else (zeroPeer c, Some (Errorf ''get %q: %w'' [id'] err))
      | Inr data \<Rightarrow>
          (case Unmarshal c data (zeroPeer c) of
             (b, Some err) \<Rightarrow>
               (zeroPeer c, multierr_Append (Some (Errorf ''unmarshal: %w'' [] err)) (closer_fault f))
           | (b, None) \<Rightarrow> (b, multierr_Append None (closer_fault f))))"

definition Assign_r ::
  "('p, 'k) collab \<Rightarrow> faults \<Rightarrow> bytes \<Rightarrow> 'p \<Rightarrow> kvstore \<Rightarrow> error option \<times> kvstore" where
  "Assign_r c f key val db =
     (case Marshal c val of
        Inl err \<Rightarrow> (Some (Errorf ''marshal: %w'' [] err), db)
      | Inr data \<Rightarrow>
          (let id' = Bytes c (KeyFromPeer c val) in
           case batch_set_fault f id' of
             Some err \<Rightarrow>
               (multierr_Append (Some (Errorf ''set id <-> data: %w'' [] err)) (batch_close_fault f), db)
           | None \<Rightarrow>
               (case batch_set_fault f key of
                  Some err \<Rightarrow>
                    (multierr_Append (Some (Errorf ''set key <-> id: %w'' [] err))
                       (batch_close_fault f), db)
                | None \<Rightarrow>
                    (case Batch_Commit f [(id', data), (key, id')] db of
                       (Some err, db') \<Rightarrow>
                         (multierr_Append (Some (Errorf ''commit changes: %w'' [] err))
                            (batch_close_fault f), db')
                     | (None, db') \<Rightarrow> (multierr_Append None (batch_close_fault f), db')))))"

definition Resolve_r :: "('p, 'k) collab \<Rightarrow> faults \<Rightarrow> bytes \<Rightarrow> kvstore \<Rightarrow> 'p \<times> error option" where
  "Resolve_r c f key db =
     (let k = key; snap = db in
      case DB_Get f snap k of
        Inl err \<Rightarrow>
          (zeroPeer c,
           multierr_Append
             (Some (if xerrors_Is err ErrNotFound then ErrPeerNotFound
                    else Errorf ''get %q: %w'' [k] err))
             (snap_close_fault f))
      | Inr id' \<Rightarrow>
          (case DB_Get f snap id' of
             Inl err \<Rightarrow>
               (zeroPeer c,
                multierr_Append
                  (multierr_Append
                     (Some (if xerrors_Is err ErrNotFound then ErrPeerNotFound
                            else Errorf ''get %q: %w'' [id'] err))
                     (closer_fault f))
                  (snap_close_fault f))
           | Inr data \<Rightarrow>
               (case Unmarshal c data (zeroPeer c) of
                  (b, Some err) \<Rightarrow>
                    (zeroPeer c,
                     multierr_Append
                       (multierr_Append
                          (multierr_Append (Some (Errorf ''unmarshal: %w'' [] err)) (closer_fault f))
                          (closer_fault f))
                       (snap_close_fault f))
                | (b, None) \<Rightarrow>
                    (b,
                     multierr_Append
                       (multierr_Append (multierr_Append None (closer_fault f)) (closer_fault f))
                       (snap_close_fault f)))))"

section \<open>Exhausting a cursor\<close>

text \<open>
  A caller reads a cursor with \<^verbatim>\<open>for it.Next(ctx) { ... it.Value() ... }\<close>.
  \<open>exhaust\<close> is that loop: the values it sees, and the cursor when \<^verbatim>\<open>Next\<close>
  has returned false. The loop ends because every successful \<^verbatim>\<open>Next\<close> moves the
  engine's iterator forward.
\<close>

declare skip_loop.simps [simp del]

lemma Iterator_Next_le: "length (remaining (Iterator_Next it)) \<le> length (remaining it)"
  by (simp add: Iterator_Next_def)

lemma Iterator_Next_valid_shorter:
  "Iterator_Valid it \<Longrightarrow> length (remaining (Iterator_Next it)) < length (remaining it)"
  by (cases "remaining it") (auto simp: Iterator_Next_def Iterator_Valid_def)

lemma skip_loop_True:
  "Iterator_Valid it \<Longrightarrow> skip_loop pre it = (True, it') \<Longrightarrow>
   Iterator_Valid it' \<and> length (remaining it') \<le> length (remaining it)"
proof (induction pre it rule: skip_loop.induct)
  case (1 pre it)
  show ?case
  proof (cases "HasPrefix (Iterator_Key it) pre")
    case True
    with "1.prems" show ?thesis by (simp add: skip_loop.simps [of pre it])
  next
    case False
    with "1.prems" have v: "Iterator_Valid (Iterator_Next it)"
      and s: "skip_loop pre (Iterator_Next it) = (True, it')"
      by (auto simp: skip_loop.simps [of pre it] Let_def split: if_splits)
    from "1.IH" [OF False refl _ v s] v
    have "Iterator_Valid it' \<and> length (remaining it') \<le> length (remaining (Iterator_Next it))"
      by simp
    with Iterator_Next_le [of it] show ?thesis by simp
  qed
qed

lemma pebbleIterator_Next_shorter:
  "pebbleIterator_Next c p = (True, p') \<Longrightarrow>
   length (remaining (it_iter p')) < length (remaining (it_iter p))"
proof -
  assume a: "pebbleIterator_Next c p = (True, p')"
  then have v: "Iterator_Valid (it_iter p)"
    by (auto simp: pebbleIterator_Next_def split: if_splits)
  from a v obtain it' where s: "skip_loop (KeyPrefix c) (it_iter p) = (True, it')"
    and p': "it_iter p' = Iterator_Next it'"
    by (auto simp: pebbleIterator_Next_def split: if_splits prod.splits bool.splits option.splits)
  from skip_loop_True [OF v s] Iterator_Next_valid_shorter [of it'] p'
  show ?thesis by simp
qed

function exhaust :: "('p, 'k) collab \<Rightarrow> 'p pebbleIterator \<Rightarrow> 'p list \<times> 'p pebbleIterator" where
  "exhaust c p =
     (case pebbleIterator_Next c p of
        (True, p') \<Rightarrow> (case exhaust c p' of (vs, q) \<Rightarrow> (pebbleIterator_Value p' # vs, q))
      | (False, p') \<Rightarrow> ([], p'))"
  by pat_completeness auto
termination
  apply (relation "measure (\<lambda>(c, p). length (remaining (it_iter p)))")
   apply simp
  apply (simp add: pebbleIterator_Next_shorter)
  done

declare exhaust.simps [simp del]

text \<open>The entries of a store whose key begins with \<^verbatim>\<open>storage.KeyPrefix\<close>, in key order.\<close>

definition prefixed :: "('p, 'k) collab \<Rightarrow> kvstore \<Rightarrow> kvstore" where
  "prefixed c db = filter (\<lambda>(k, v). HasPrefix k (KeyPrefix c)) db"

section \<open>A cursor and the writes that follow\<close>

text \<open>
  A session is what a caller does with one cursor while the store is written: the
  content of the store, the cursor that \<^verbatim>\<open>Iterate()\<close> returned, and the values the
  caller has taken from it. An event is a call of \<^verbatim>\<open>Add\<close> or \<^verbatim>\<open>Assign\<close> on the
  store, or one \<^verbatim>\<open>if it.Next(ctx) { ... it.Value() ... }\<close> on the cursor. The calls
  that write get the store of the storage handle; \<^verbatim>\<open>Next\<close> gets the cursor, which
  holds its own snapshot and iterator.
\<close>

datatype 'p event = DoAdd faults 'p | DoAssign faults bytes 'p | DoNext

record 'p session =
  s_db :: kvstore
  s_cursor :: "'p pebbleIterator"
  s_yielded :: "'p list"

fun session_step :: "('p, 'k) collab \<Rightarrow> 'p event \<Rightarrow> 'p session \<Rightarrow> 'p session" where
  "session_step c (DoAdd f p) s = s\<lparr>s_db := snd (Add c f p (s_db s))\<rparr>"
| "session_step c (DoAssign f key p) s = s\<lparr>s_db := snd (Assign c f key p (s_db s))\<rparr>"
| "session_step c DoNext s =
     (case pebbleIterator_Next c (s_cursor s) of
        (True, cur') \<Rightarrow>
          s\<lparr>s_cursor := cur', s_yielded := s_yielded s @ [pebbleIterator_Value cur']\<rparr>
      | (False, cur') \<Rightarrow> s\<lparr>s_cursor := cur'\<rparr>)"

definition session_start :: "('p, 'k) collab \<Rightarrow> faults \<Rightarrow> kvstore \<Rightarrow> 'p session" where
  "session_start c f db = \<lparr> s_db = db, s_cursor = fst (Iterate c f db), s_yielded = [] \<rparr>"

definition session_run :: "('p, 'k) collab \<Rightarrow> 'p event list \<Rightarrow> 'p session \<Rightarrow> 'p session" where
  "session_run c evs s = fold (session_step c) evs s"

text \<open>
  A session reads from a snapshot \<open>snap\<close>: the entries its cursor has yet to pass are
  entries of \<open>snap\<close>, and every value it has yielded is the result of decoding,
  without error, the value of an entry of \<open>snap\<close>.
\<close>

definition from_snapshot :: "('p, 'k) collab \<Rightarrow> kvstore \<Rightarrow> 'p session \<Rightarrow> bool" where
  "from_snapshot c snap s =
     (set (remaining (it_iter (s_cursor s))) \<subseteq> set snap
      \<and> (\<forall>x \<in> set (s_yielded s). \<exists>(k, v) \<in> set snap. \<exists>dst. Unmarshal c v dst = (x, None)))"

section \<open>Sequences of writes\<close>

text \<open>
  The states a store can reach are those that calls of \<^verbatim>\<open>Add\<close> and \<^verbatim>\<open>Assign\<close>
  produce from the empty store. A step is a call with the failures injected into it;
  \<open>run\<close> and \<open>run_r\<close> execute the steps on the two storages. \<open>written\<close> and
  \<open>written_r\<close> list the keys that a call puts into its batch (or sets): the primary
  key first, then the alias keys.
\<close>

datatype 'p call = CallAdd 'p | CallAssign bytes 'p

fun exec :: "('p, 'k) collab \<Rightarrow> faults \<times> 'p call \<Rightarrow> kvstore \<Rightarrow> kvstore" where
  "exec c (f, CallAdd p) db = snd (Add c f p db)"
| "exec c (f, CallAssign key p) db = snd (Assign c f key p db)"

fun exec_r :: "('p, 'k) collab \<Rightarrow> faults \<times> 'p call \<Rightarrow> kvstore \<Rightarrow> kvstore" where
  "exec_r c (f, CallAdd p) db = snd (Add_r c f p db)"
| "exec_r c (f, CallAssign key p) db = snd (Assign_r c f key p db)"

definition run :: "('p, 'k) collab \<Rightarrow> (faults \<times> 'p call) list \<Rightarrow> kvstore \<Rightarrow> kvstore" where
  "run c steps db = fold (exec c) steps db"

definition run_r :: "('p, 'k) collab \<Rightarrow> (faults \<times> 'p call) list \<Rightarrow> kvstore \<Rightarrow> kvstore" where
  "run_r c steps db = fold (exec_r c) steps db"

fun written :: "('p, 'k) collab \<Rightarrow> 'p call \<Rightarrow> bytes list" where
  "written c (CallAdd p) = Bytes c (KeyFromPeer c p) # Keys c p"
| "written c (CallAssign key p) = Bytes c (KeyFromPeer c p) # Keys c p @ [key]"

fun written_r :: "('p, 'k) collab \<Rightarrow> 'p call \<Rightarrow> bytes list" where
  "written_r c (CallAdd p) = [Bytes c (KeyFromPeer c p)]"
| "written_r c (CallAssign key p) = [Bytes c (KeyFromPeer c p), key]"

definition written_keys :: "('p, 'k) collab \<Rightarrow> (faults \<times> 'p call) list \<Rightarrow> bytes list" where
  "written_keys c steps = concat (map (\<lambda>st. written c (snd st)) steps)"

definition written_keys_r :: "('p, 'k) collab \<Rightarrow> (faults \<times> 'p call) list \<Rightarrow> bytes list" where
  "written_keys_r c steps = concat (map (\<lambda>st. written_r c (snd st)) steps)"

text \<open>
  The primary key of a call and the alias strings it writes (\<open>written\<close> is the one
  followed by the others), and those of a sequence of calls.
\<close>

fun call_peer :: "'p call \<Rightarrow> 'p" where
  "call_peer (CallAdd p) = p"
| "call_peer (CallAssign key p) = p"

definition primary_key :: "('p, 'k) collab \<Rightarrow> 'p call \<Rightarrow> bytes" where
  "primary_key c call = Bytes c (KeyFromPeer c (call_peer call))"

fun alias_strings :: "('p, 'k) collab \<Rightarrow> 'p call \<Rightarrow> bytes list" where
  "alias_strings c (CallAdd p) = Keys c p"
| "alias_strings c (CallAssign key p) = Keys c p @ [key]"

fun alias_strings_r :: "('p, 'k) collab \<Rightarrow> 'p call \<Rightarrow> bytes list" where
  "alias_strings_r c (CallAdd p) = []"
| "alias_strings_r c (CallAssign key p) = [key]"

definition primary_keys :: "('p, 'k) collab \<Rightarrow> (faults \<times> 'p call) list \<Rightarrow> bytes list" where
  "primary_keys c steps = map (\<lambda>st. primary_key c (snd st)) steps"

definition alias_keys :: "('p, 'k) collab \<Rightarrow> (faults \<times> 'p call) list \<Rightarrow> bytes list" where
  "alias_keys c steps = concat (map (\<lambda>st. alias_strings c (snd st)) steps)"

definition alias_keys_r :: "('p, 'k) collab \<Rightarrow> (faults \<times> 'p call) list \<Rightarrow> bytes list" where
  "alias_keys_r c steps = concat (map (\<lambda>st. alias_strings_r c (snd st)) steps)"

text \<open>
  A store keeps records and aliases apart, for a set \<open>P\<close> of primary keys: an entry
  whose key is in \<open>P\<close> is a record entry, the encoding of a peer with that key, and
  any other entry is an alias entry, whose value is a key in \<open>P\<close> that has an entry.
\<close>

definition separated :: "('p, 'k) collab \<Rightarrow> bytes set \<Rightarrow> kvstore \<Rightarrow> bool" where
  "separated c P db =
     (\<forall>k v. kv_get db k = Some v \<longrightarrow>
        (if k \<in> P then (\<exists>p. k = Bytes c (KeyFromPeer c p) \<and> Marshal c p = Inr v)
         else v \<in> P \<and> kv_get db v \<noteq> None))"

section \<open>Example collaborators\<close>

text \<open>
  Modelled from the spec: the peer domain model (\<^verbatim>\<open>identity\<close>, \<^verbatim>\<open>aliases\<close>, the byte
  codec \<^verbatim>\<open>encode\<close>/\<^verbatim>\<open>decode\<close>) of package \<^verbatim>\<open>storage\<close>, which is not among the
  sources. This is one small instance of that contract, for evaluating the operations
  at concrete inputs: a peer has a one-byte identity and one alias (none when empty);
  its primary key is the prefix \<^verbatim>\<open>"peer"\<close> followed by the identity; it is encoded as
  \<^verbatim>\<open>'{'\<close>, the identity and the alias, and bytes that do not start with \<^verbatim>\<open>'{'\<close>
  and an identity do not decode.
\<close>

datatype ex_peer = ExPeer (ex_id: byte) (ex_username: bytes)

definition ex_collab :: "(ex_peer, byte) collab" where
  "ex_collab = \<lparr>
     KeyPrefix = [0x70, 0x65, 0x65, 0x72],
     KeyFromPeer = ex_id,
     Bytes = (\<lambda>k. [0x70, 0x65, 0x65, 0x72, k]),
     Keys = (\<lambda>p. if ex_username p = [] then [] else [ex_username p]),
     Marshal = (\<lambda>p. Inr (0x7B # ex_id p # ex_username p)),
     Unmarshal = (\<lambda>data dst. case data of
                     b # i # u \<Rightarrow>
                       if b = 0x7B then (ExPeer i u, None) else (dst, Some (JSONError 0))
                   | _ \<Rightarrow> (dst, Some (JSONError 0))),
     zeroPeer = ExPeer 0 [] \<rparr>"

section \<open>Facts about the engine\<close>

lemma kv_get_kv_set: "kv_get (kv_set k v db) k' = (if k' = k then Some v else kv_get db k')"
  by (induction db) (auto simp: kv_get_def)

lemma kv_get_fold_alias:
  "kv_get (fold (\<lambda>(k, v). kv_set k v) (map (\<lambda>key. (key, i)) ks) db) k =
     (if k \<in> set ks then Some i else kv_get db k)"
  by (induction ks arbitrary: db) (auto simp: kv_get_kv_set)

lemma kv_get_Batch_apply_add:
  "kv_get (Batch_apply ((i, data) # map (\<lambda>key. (key, i)) ks) db) k =
     (if k \<in> set ks then Some i else if k = i then Some data else kv_get db k)"
  by (simp add: Batch_apply_def kv_get_fold_alias kv_get_kv_set)

lemma fst_kv_set: "fst ` set (kv_set k v db) = insert k (fst ` set db)"
proof (induction db)
  case Nil
  then show ?case by simp
next
  case (Cons a db)
  obtain k' v' where a: "a = (k', v')" by (cases a)
  show ?case
  proof (cases "k < k'")
    case True
    then show ?thesis by (simp add: a)
  next
    case False
    show ?thesis
    proof (cases "k = k'")
      case True
      then show ?thesis by (simp add: a)
    next
      case ne: False
      with False Cons.IH show ?thesis by (simp add: a insert_commute)
    qed
  qed
qed

lemma kv_ordered_kv_set: "kv_ordered db \<Longrightarrow> kv_ordered (kv_set k v db)"
  unfolding kv_ordered_def
proof (induction db)
  case Nil
  then show ?case by simp
next
  case (Cons a db)
  obtain k' v' where a: "a = (k', v')" by (cases a)
  from Cons.prems have tl: "sorted_wrt (<) (map fst db)" and hd: "\<forall>x \<in> set (map fst db). k' < x"
    by (auto simp: a)
  show ?case
    using Cons.IH [OF tl] hd Cons.prems
    by (auto simp: a fst_kv_set)
qed

lemma multierr_Append_Some: "multierr_Append (Some e) r \<noteq> None"
  by (cases r) simp_all

section \<open>Facts about keyUpperBound\<close>

lemma byte_succ_zero_iff: "(x + 1 = 0) = (x = (0xFF :: byte))"
proof
  assume "x + 1 = 0"
  then have "x = - 1" by (simp add: eq_neg_iff_add_eq_0)
  then show "x = 0xFF" by simp
next
  assume "x = 0xFF"
  then show "x + 1 = 0" by simp
qed

lemma UpperBound_spec_Nil: "UpperBound_spec [] = None"
  by (simp add: UpperBound_spec_def)

lemma UpperBound_spec_snoc:
  "UpperBound_spec (xs @ [x]) =
     (if x = 0xFF then UpperBound_spec xs else Some (xs @ [x + 1]))"
  by (simp add: UpperBound_spec_def Let_def)

lemma keyUpperBound_loop_spec:
  "n \<le> length e \<Longrightarrow> keyUpperBound_loop e n = UpperBound_spec (take n e)"
proof (induction n arbitrary: e)
  case 0
  then show ?case by (simp add: UpperBound_spec_Nil)
next
  case (Suc i)
  then have i: "i < length e" by simp
  have tk: "take (Suc i) e = take i e @ [e ! i]"
    using i by (simp add: take_Suc_conv_app_nth)
  have tk': "take (Suc i) (e[i := e ! i + 1]) = take i e @ [e ! i + 1]"
    using i by (simp add: take_Suc_conv_app_nth)
  have rec: "keyUpperBound_loop (e[i := e ! i + 1]) i = UpperBound_spec (take i e)"
    using Suc.IH [of "e[i := e ! i + 1]"] i by simp
  have upd: "(e[i := e ! i + 1]) ! i = e ! i + 1"
    using i by simp
  show ?case
  proof (cases "e ! i = 0xFF")
    case True
    then have z: "e ! i + 1 = 0" by (simp only: byte_succ_zero_iff)
    have "keyUpperBound_loop e (Suc i) = keyUpperBound_loop (e[i := e ! i + 1]) i"
      using i z by (simp add: Let_def)
    also have "\<dots> = UpperBound_spec (take i e)"
      by (rule rec)
    also have "\<dots> = UpperBound_spec (take (Suc i) e)"
      unfolding tk UpperBound_spec_snoc using True by simp
    finally show ?thesis .
  next
    case False
    then have nz: "e ! i + 1 \<noteq> 0" by (simp only: byte_succ_zero_iff not_False_eq_True)
    have "keyUpperBound_loop e (Suc i) = Some (take (Suc i) (e[i := e ! i + 1]))"
      using i nz by (simp add: Let_def)
    also have "\<dots> = Some (take i e @ [e ! i + 1])"
      by (simp only: tk')
    also have "\<dots> = UpperBound_spec (take (Suc i) e)"
      unfolding tk UpperBound_spec_snoc using False by simp
    finally show ?thesis .
  qed
qed

lemma keyUpperBound_eq_spec: "keyUpperBound b = UpperBound_spec b"
  by (simp add: keyUpperBound_def keyUpperBound_loop_spec)

text \<open>
  \<^bold>\<open>C7.\<close> For every byte string, \<^verbatim>\<open>keyUpperBound\<close> returns what the specification
  describes: the prefix without its trailing \<^verbatim>\<open>0xFF\<close> bytes and with the last
  remaining byte incremented, and no bound when the prefix is empty or consists of
  \<^verbatim>\<open>0xFF\<close> bytes only. In particular \<^verbatim>\<open>[0x01, 0xFF]\<close> gives \<^verbatim>\<open>[0x02]\<close>, and
  \<^verbatim>\<open>[0xFF, 0xFF]\<close> and the empty prefix give no bound.
\<close>

theorem keyUpperBound_correct:
  "keyUpperBound b = UpperBound_spec b
   \<and> (keyUpperBound b = None) = (set b \<subseteq> {0xFF})
   \<and> keyUpperBound [0x01, 0xFF] = Some [0x02]
   \<and> keyUpperBound [0xFF, 0xFF] = None
   \<and> keyUpperBound [] = None"
proof -
  have none: "(UpperBound_spec b = None) = (set b \<subseteq> {0xFF})"
    by (induction b rule: rev_induct) (auto simp: UpperBound_spec_Nil UpperBound_spec_snoc)
  have e1: "keyUpperBound [0x01, 0xFF] = Some [0x02]"
    by code_simp
  have e2: "keyUpperBound [0xFF, 0xFF] = None"
    by code_simp
  have e3: "keyUpperBound [] = None"
    by (simp add: keyUpperBound_def)
  show ?thesis
    using none e1 e2 e3 by (simp add: keyUpperBound_eq_spec)
qed

section \<open>The range of a prefix\<close>

text \<open>
  The keys between a prefix and its upper bound are the keys that begin with the
  prefix; without an upper bound, the keys from the prefix on are.
\<close>

lemma HasPrefix_simps [simp]:
  "HasPrefix k [] = True"
  "HasPrefix [] (x # xs) = False"
  "HasPrefix (y # ys) (x # xs) = (y = x \<and> HasPrefix ys xs)"
  by (auto simp: HasPrefix_def)

lemma UpperBound_spec_Cons:
  "UpperBound_spec (x # xs) =
     (case UpperBound_spec xs of
        Some u \<Rightarrow> Some (x # u)
      | None \<Rightarrow> if x = 0xFF then None else Some [x + 1])"
proof (induction xs rule: rev_induct)
  case Nil
  show ?case
    using UpperBound_spec_snoc [of "[]" x] by (simp add: UpperBound_spec_Nil)
next
  case (snoc y ys)
  show ?case
    using UpperBound_spec_snoc [of "x # ys" y] UpperBound_spec_snoc [of ys y] snoc.IH
    by (simp split: option.splits)
qed

lemma byte_less_succ:
  fixes x y :: byte
  assumes "x \<noteq> 0xFF"
  shows "(y < x + 1) = (y \<le> x)"
proof -
  have "unat x \<noteq> unat (0xFF :: byte)"
    using assms by (simp only: word_unat_eq_iff [symmetric] not_False_eq_True)
  then have ne: "unat x \<noteq> 255" by simp
  have "unat x < 2 ^ LENGTH(8)" by (rule unsigned_less)
  then have "unat x < 256" by simp
  with ne have "unat (x + 1) = unat x + 1"
    by (simp add: unat_word_ariths)
  then show ?thesis
    by (auto simp: word_less_nat_alt word_le_nat_alt)
qed

lemma byte_le_max: "y \<le> (0xFF :: byte)"
proof -
  have "(0xFF :: byte) = - 1" by simp
  then show ?thesis by (simp only: word_order.extremum)
qed

lemma in_range_prefix:
  "in_range pre (keyUpperBound pre) k = HasPrefix k pre"
  unfolding keyUpperBound_eq_spec
proof (induction pre arbitrary: k)
  case Nil
  show ?case by (simp add: in_range_def UpperBound_spec_Nil)
next
  case (Cons x xs)
  show ?case
  proof (cases k)
    case Nil
    then show ?thesis by (simp add: in_range_def)
  next
    case (Cons y ys)
    note k = this
    show ?thesis
    proof (cases "UpperBound_spec xs")
      case (Some u)
      with Cons.IH [of ys] have ih: "(xs \<le> ys \<and> ys < u) = HasPrefix ys xs"
        by (simp add: in_range_def)
      show ?thesis
        using ih Some by (auto simp: in_range_def k UpperBound_spec_Cons)
    next
      case None
      with Cons.IH [of ys] have ih: "(xs \<le> ys) = HasPrefix ys xs"
        by (simp add: in_range_def)
      show ?thesis
      proof (cases "x = 0xFF")
        case True
        have "\<not> (0xFF :: byte) < y"
          using byte_le_max [of y] by (simp only: not_less)
        with ih None True show ?thesis
          by (auto simp: in_range_def k UpperBound_spec_Cons)
      next
        case False
        with ih None show ?thesis
          by (auto simp: in_range_def k UpperBound_spec_Cons byte_less_succ)
      qed
    qed
  qed
qed

section \<open>Facts about the operations\<close>

lemma add_success:
  assumes "add c f ks p db = (None, db')"
  shows "\<exists>data. Marshal c p = Inr data \<and> commit_fault f = None \<and> batch_close_fault f = None \<and>
           db' = Batch_apply ((Bytes c (KeyFromPeer c p), data) #
                   map (\<lambda>key. (key, Bytes c (KeyFromPeer c p))) ks) db"
proof (cases "Marshal c p")
  case (Inl e)
  with assms show ?thesis by (simp add: add_def)
next
  case (Inr data)
  show ?thesis
  proof (cases "commit_fault f")
    case None
    with assms Inr show ?thesis
      by (simp add: add_def Batch_Commit_def Let_def)
  next
    case (Some e)
    with assms Inr multierr_Append_Some show ?thesis
      by (simp add: add_def Batch_Commit_def Let_def)
  qed
qed

lemma Find_hit:
  assumes "kv_get db (Bytes c key) = Some data" "read_fault f (Bytes c key) = None"
    "closer_fault f = None" "Unmarshal c data (zeroPeer c) = (q, None)"
  shows "Find c f key db = (q, None)"
  using assms by (simp add: Find_def DB_Get_def Let_def)

lemma Resolve_hit:
  assumes "kv_get db a = Some i" "kv_get db i = Some data"
    "read_fault f a = None" "read_fault f i = None"
    "closer_fault f = None" "snap_close_fault f = None"
    "Unmarshal c data (zeroPeer c) = (q, None)"
  shows "Resolve c f a db = (q, None)"
  using assms by (simp add: Resolve_def DB_Get_def Let_def)

lemma Resolve_miss2:
  assumes "kv_get db a = Some i" "kv_get db i = None"
    "read_fault f a = None" "read_fault f i = None"
    "closer_fault f = None" "snap_close_fault f = None"
  shows "Resolve c f a db = (zeroPeer c, Some ErrPeerNotFound)"
    and "Resolve_r c f a db = (zeroPeer c, Some ErrPeerNotFound)"
  using assms by (simp_all add: Resolve_def Resolve_r_def DB_Get_def Let_def)

lemma Resolve_miss1:
  assumes "kv_get db a = None" "read_fault f a = None" "snap_close_fault f = None"
  shows "Resolve c f a db = (zeroPeer c, Some ErrPeerNotFound)"
    and "Resolve_r c f a db = (zeroPeer c, Some ErrPeerNotFound)"
  using assms by (simp_all add: Resolve_def Resolve_r_def DB_Get_def Let_def)

lemma Find_miss:
  assumes "kv_get db (Bytes c key) = None" "read_fault f (Bytes c key) = None"
  shows "Find c f key db = (zeroPeer c, Some ErrPeerNotFound)"
    and "Find_r c f key db = (zeroPeer c, Some ErrPeerNotFound)"
  using assms by (simp_all add: Find_def Find_r_def DB_Get_def Let_def)

lemma no_faults_simps:
  "read_fault no_faults k = None" "set_fault no_faults k = None"
  "batch_set_fault no_faults k = None" "commit_fault no_faults = None"
  "batch_close_fault no_faults = None" "closer_fault no_faults = None"
  "snap_close_fault no_faults = None" "iter_close_fault no_faults = None"
  by (simp_all add: no_faults_def)

lemma multierr_Append_Some_ex: "\<exists>y. multierr_Append (Some e) r = Some y"
  by (cases r) simp_all

lemma add_cases:
  "snd (add c f ks p db) = db \<and> fst (add c f ks p db) \<noteq> None
   \<or> (\<exists>data. Marshal c p = Inr data \<and> commit_fault f = None \<and>
         snd (add c f ks p db) =
           Batch_apply ((Bytes c (KeyFromPeer c p), data) #
             map (\<lambda>key. (key, Bytes c (KeyFromPeer c p))) ks) db)"
proof (cases "Marshal c p")
  case (Inl e)
  then show ?thesis by (simp add: add_def)
next
  case (Inr data)
  then show ?thesis
    by (cases "commit_fault f")
       (simp_all add: add_def Batch_Commit_def Let_def multierr_Append_Some)
qed

lemma add_commit_fault:
  "commit_fault f \<noteq> None \<Longrightarrow>
   snd (add c f ks p db) = db \<and> fst (add c f ks p db) \<noteq> None"
  using add_cases [of c f ks p db] by auto

lemma add_error_unchanged:
  "batch_close_fault f = None \<Longrightarrow> fst (add c f ks p db) \<noteq> None \<Longrightarrow>
   snd (add c f ks p db) = db"
proof (cases "Marshal c p")
  case (Inl e)
  then show ?thesis by (simp add: add_def)
next
  case (Inr data)
  assume "batch_close_fault f = None" "fst (add c f ks p db) \<noteq> None"
  with Inr show ?thesis
    by (cases "commit_fault f")
       (simp_all add: add_def Batch_Commit_def Let_def)
qed

lemma Assign_r_commit_fault:
  "commit_fault f \<noteq> None \<Longrightarrow>
   snd (Assign_r c f key p db) = db \<and> fst (Assign_r c f key p db) \<noteq> None"
  by (auto simp: Assign_r_def Batch_Commit_def Let_def multierr_Append_Some_ex
           split: sum.splits option.splits)

lemma Assign_r_error_unchanged:
  "batch_close_fault f = None \<Longrightarrow> fst (Assign_r c f key p db) \<noteq> None \<Longrightarrow>
   snd (Assign_r c f key p db) = db"
  by (auto simp: Assign_r_def Batch_Commit_def Let_def
           split: sum.splits option.splits)

lemma Add_r_error_unchanged:
  "fst (Add_r c f p db) \<noteq> None \<Longrightarrow> snd (Add_r c f p db) = db"
  by (auto simp: Add_r_def DB_Set_def Let_def split: sum.splits option.splits)

lemma kv_get_add_other:
  "k \<noteq> Bytes c (KeyFromPeer c p) \<Longrightarrow> k \<notin> set ks \<Longrightarrow>
   kv_get (snd (add c f ks p db)) k = kv_get db k"
  using add_cases [of c f ks p db] by (auto simp: kv_get_Batch_apply_add)

lemma kv_get_exec_other:
  "k \<notin> set (written c (snd st)) \<Longrightarrow> kv_get (exec c st db) k = kv_get db k"
proof (cases st)
  case (Pair f call)
  assume "k \<notin> set (written c (snd st))"
  with Pair show ?thesis
    by (cases call) (simp_all add: Add_def Assign_def kv_get_add_other)
qed

lemma kv_get_Add_r_other:
  "k \<noteq> Bytes c (KeyFromPeer c p) \<Longrightarrow> kv_get (snd (Add_r c f p db)) k = kv_get db k"
  by (auto simp: Add_r_def DB_Set_def Let_def kv_get_kv_set split: sum.splits option.splits)

lemma kv_get_Assign_r_other:
  "k \<noteq> Bytes c (KeyFromPeer c p) \<Longrightarrow> k \<noteq> key \<Longrightarrow>
   kv_get (snd (Assign_r c f key p db)) k = kv_get db k"
  by (auto simp: Assign_r_def Batch_Commit_def Batch_apply_def Let_def kv_get_kv_set
           split: sum.splits option.splits)

lemma kv_get_exec_r_other:
  "k \<notin> set (written_r c (snd st)) \<Longrightarrow> kv_get (exec_r c st db) k = kv_get db k"
proof (cases st)
  case (Pair f call)
  assume "k \<notin> set (written_r c (snd st))"
  with Pair show ?thesis
    by (cases call) (simp_all add: kv_get_Add_r_other kv_get_Assign_r_other)
qed

lemma kv_get_run_other:
  "k \<notin> set (written_keys c steps) \<Longrightarrow> kv_get (run c steps db) k = kv_get db k"
  unfolding run_def written_keys_def
  by (induction steps arbitrary: db) (simp_all add: kv_get_exec_other)

lemma kv_get_run_r_other:
  "k \<notin> set (written_keys_r c steps) \<Longrightarrow> kv_get (run_r c steps db) k = kv_get db k"
  unfolding run_r_def written_keys_r_def
  by (induction steps arbitrary: db) (simp_all add: kv_get_exec_r_other)

text \<open>Every store that the calls reach from the empty store is in key order.\<close>

lemma kv_ordered_Batch_apply: "kv_ordered db \<Longrightarrow> kv_ordered (Batch_apply b db)"
  unfolding Batch_apply_def
  by (induction b arbitrary: db) (auto simp: kv_ordered_kv_set)

lemma kv_ordered_add: "kv_ordered db \<Longrightarrow> kv_ordered (snd (add c f ks p db))"
  using add_cases [of c f ks p db] by (auto simp: kv_ordered_Batch_apply)

lemma kv_ordered_run: "kv_ordered (run c steps [])"
proof -
  have "kv_ordered db \<Longrightarrow> kv_ordered (fold (exec c) steps db)" for db
  proof (induction steps arbitrary: db)
    case Nil
    then show ?case by simp
  next
    case (Cons st steps)
    obtain f call where st: "st = (f, call)" by (cases st)
    have "kv_ordered (exec c st db)"
      using Cons.prems by (cases call) (simp_all add: st Add_def Assign_def kv_ordered_add)
    then show ?case by (simp add: Cons.IH)
  qed
  then show ?thesis by (simp add: run_def kv_ordered_def)
qed

section \<open>Facts about the cursor\<close>

lemma Iterate_remaining:
  "remaining (it_iter (fst (Iterate c f db))) = prefixed c db"
  by (simp add: Iterate_def Snapshot_NewIter_def prefixIterOptions_def in_range_prefix
        prefixed_def Let_def)

lemma Iterate_fields:
  "iter_fault (it_iter (fst (Iterate c f db))) = read_fault f"
  "it_value (fst (Iterate c f db)) = zeroPeer c"
  "it_lastErr (fst (Iterate c f db)) = None"
  "it_snap (fst (Iterate c f db)) = db"
  "snd (Iterate c f db) = None"
  by (simp_all add: Iterate_def Snapshot_NewIter_def Let_def)

lemma skip_loop_hit:
  "HasPrefix (Iterator_Key it) pre \<Longrightarrow> skip_loop pre it = (True, it)"
  by (simp add: skip_loop.simps [of pre it])

lemma Next_empty:
  "remaining (it_iter p) = [] \<Longrightarrow> pebbleIterator_Next c p = (False, p)"
  by (simp add: pebbleIterator_Next_def Iterator_Valid_def)

lemma Next_record:
  assumes "remaining (it_iter p) = (k, v) # rest"
    and "iter_fault (it_iter p) k = None"
    and "HasPrefix k (KeyPrefix c)"
  shows "pebbleIterator_Next c p =
     (case Unmarshal c v (it_value p) of
        (x, Some err) \<Rightarrow>
          (False, p\<lparr>it_value := x, it_lastErr := Some (Errorf ''unmarshal: %w'' [] err)\<rparr>)
      | (x, None) \<Rightarrow>
          (True, p\<lparr>it_iter := (it_iter p)\<lparr>remaining := rest\<rparr>, it_value := x\<rparr>))"
proof -
  have v: "Iterator_Valid (it_iter p)"
    using assms by (simp add: Iterator_Valid_def Iterator_Error_def)
  have k: "Iterator_Key (it_iter p) = k" and vv: "Iterator_Value (it_iter p) = v"
    using assms by (simp_all add: Iterator_Key_def Iterator_Value_def)
  have s: "skip_loop (KeyPrefix c) (it_iter p) = (True, it_iter p)"
    using assms(3) k by (simp add: skip_loop_hit)
  have n: "Iterator_Next (it_iter p) = (it_iter p)\<lparr>remaining := rest\<rparr>"
    using v assms(1) by (simp add: Iterator_Next_def)
  show ?thesis
    using v by (simp add: pebbleIterator_Next_def s vv n split: prod.splits option.splits)
qed

lemma exhaust_all_decoded:
  assumes "remaining (it_iter p) = xs"
    and "\<forall>(k, v) \<in> set xs. HasPrefix k (KeyPrefix c) \<and> iter_fault (it_iter p) k = None
           \<and> (\<forall>dst. Unmarshal c v dst = (dcd v, None))"
  shows "fst (exhaust c p) = map (\<lambda>(k, v). dcd v) xs
       \<and> it_lastErr (snd (exhaust c p)) = it_lastErr p"
  using assms
proof (induction xs arbitrary: p)
  case Nil
  then show ?case
    by (simp add: exhaust.simps [of c p] Next_empty)
next
  case (Cons a xs)
  obtain k v where a: "a = (k, v)" by (cases a)
  from Cons.prems have r: "remaining (it_iter p) = (k, v) # xs"
    and ok: "HasPrefix k (KeyPrefix c)" "iter_fault (it_iter p) k = None"
    and u: "Unmarshal c v (it_value p) = (dcd v, None)"
    by (simp_all add: a)
  note nx = Next_record [OF r ok(2) ok(1)]
  let ?p' = "p\<lparr>it_iter := (it_iter p)\<lparr>remaining := xs\<rparr>, it_value := dcd v\<rparr>"
  have "fst (exhaust c ?p') = map (\<lambda>(k, v). dcd v) xs
        \<and> it_lastErr (snd (exhaust c ?p')) = it_lastErr ?p'"
    using Cons.prems by (intro Cons.IH) (auto simp: a)
  then show ?case
    by (auto simp: exhaust.simps [of c p] nx u a pebbleIterator_Value_def split: prod.splits)
qed

lemma sorted_wrt_less_distinct: "sorted_wrt (<) ks \<Longrightarrow> distinct ks" for ks :: "bytes list"
  by (induction ks) auto

lemma kv_ordered_distinct: "kv_ordered db \<Longrightarrow> distinct (map fst db)"
  unfolding kv_ordered_def by (rule sorted_wrt_less_distinct)

lemma distinct_prefixed: "kv_ordered db \<Longrightarrow> distinct (map fst (prefixed c db))"
  unfolding prefixed_def by (rule distinct_map_filter) (rule kv_ordered_distinct)

lemma Iterator_Next_subset: "set (remaining (Iterator_Next it)) \<subseteq> set (remaining it)"
  by (cases "remaining it") (auto simp: Iterator_Next_def)

lemma skip_loop_subset:
  "skip_loop pre it = (b, it') \<Longrightarrow> set (remaining it') \<subseteq> set (remaining it)"
proof (induction pre it rule: skip_loop.induct)
  case (1 pre it)
  show ?case
  proof (cases "HasPrefix (Iterator_Key it) pre")
    case True
    with "1.prems" show ?thesis by (simp add: skip_loop.simps [of pre it])
  next
    case False
    show ?thesis
    proof (cases "Iterator_Valid (Iterator_Next it)")
      case v: True
      with False "1.prems" have "skip_loop pre (Iterator_Next it) = (b, it')"
        by (simp add: skip_loop.simps [of pre it] Let_def)
      from "1.IH" [OF False refl _ this] v Iterator_Next_subset [of it]
      show ?thesis by auto
    next
      case nv: False
      with False "1.prems" have "it' = Iterator_Next it"
        by (simp add: skip_loop.simps [of pre it] Let_def)
      with Iterator_Next_subset [of it] show ?thesis by simp
    qed
  qed
qed

lemma Next_True_decoded:
  assumes "pebbleIterator_Next c p = (True, p')"
  shows "\<exists>(k, v) \<in> set (remaining (it_iter p)). Unmarshal c v (it_value p) = (it_value p', None)"
proof -
  from assms have v: "Iterator_Valid (it_iter p)"
    by (auto simp: pebbleIterator_Next_def split: if_splits)
  from assms v obtain it' x where s: "skip_loop (KeyPrefix c) (it_iter p) = (True, it')"
    and u: "Unmarshal c (Iterator_Value it') (it_value p) = (x, None)"
    and p': "p' = p\<lparr>it_iter := Iterator_Next it', it_value := x\<rparr>"
    by (auto simp: pebbleIterator_Next_def split: if_splits prod.splits bool.splits option.splits)
  from skip_loop_True [OF v s] have v': "Iterator_Valid it'" by simp
  then obtain k w rest where r: "remaining it' = (k, w) # rest"
    by (cases "remaining it'") (auto simp: Iterator_Valid_def)
  then have w: "Iterator_Value it' = w" by (simp add: Iterator_Value_def)
  from skip_loop_subset [OF s] r have mem: "(k, w) \<in> set (remaining (it_iter p))" by auto
  have "Unmarshal c w (it_value p) = (it_value p', None)"
    using u w p' by simp
  with mem show ?thesis by auto
qed

lemma Next_subset:
  "set (remaining (it_iter (snd (pebbleIterator_Next c p)))) \<subseteq> set (remaining (it_iter p))"
proof (cases "Iterator_Valid (it_iter p)")
  case False
  then show ?thesis by (simp add: pebbleIterator_Next_def)
next
  case True
  obtain b it' where s: "skip_loop (KeyPrefix c) (it_iter p) = (b, it')"
    by (cases "skip_loop (KeyPrefix c) (it_iter p)")
  from skip_loop_subset [OF s] Iterator_Next_subset [of it'] True s
  show ?thesis
    by (auto simp: pebbleIterator_Next_def split: prod.splits bool.splits option.splits)
qed

lemma from_snapshot_step:
  assumes "from_snapshot c snap s"
  shows "from_snapshot c snap (session_step c ev s)"
proof (cases ev)
  case (DoAdd f p)
  with assms show ?thesis by (simp add: from_snapshot_def)
next
  case (DoAssign f key p)
  with assms show ?thesis by (simp add: from_snapshot_def)
next
  case DoNext
  obtain b cur' where n: "pebbleIterator_Next c (s_cursor s) = (b, cur')"
    by (cases "pebbleIterator_Next c (s_cursor s)")
  from Next_subset [of c "s_cursor s"] n assms
  have sub: "set (remaining (it_iter cur')) \<subseteq> set snap"
    by (auto simp: from_snapshot_def)
  show ?thesis
  proof (cases b)
    case False
    with n sub assms DoNext show ?thesis by (simp add: from_snapshot_def)
  next
    case True
    with n have n': "pebbleIterator_Next c (s_cursor s) = (True, cur')" by simp
    from Next_True_decoded [OF n'] assms
    have "\<exists>(k, v) \<in> set snap. \<exists>dst. Unmarshal c v dst = (it_value cur', None)"
      by (auto simp: from_snapshot_def)
    with n' sub assms DoNext show ?thesis
      by (auto simp: from_snapshot_def pebbleIterator_Value_def)
  qed
qed

lemma from_snapshot_run:
  "from_snapshot c snap s \<Longrightarrow> from_snapshot c snap (session_run c evs s)"
  unfolding session_run_def
  by (induction evs arbitrary: s) (simp_all add: from_snapshot_step)

lemma from_snapshot_start: "from_snapshot c (prefixed c db) (session_start c f db)"
  by (simp add: from_snapshot_def session_start_def Iterate_remaining)

lemma s_db_Next: "s_db (session_step c DoNext s) = s_db s"
  by (auto split: prod.splits bool.splits)

lemma s_db_Nexts: "s_db ((session_step c DoNext ^^ n) s) = s_db s"
  by (induction n) (simp_all add: s_db_Next del: session_step.simps)

lemma Next_decode_error:
  assumes "Iterator_Valid (it_iter cur)"
    and "HasPrefix (Iterator_Key (it_iter cur)) (KeyPrefix c)"
    and "snd (Unmarshal c (Iterator_Value (it_iter cur)) (it_value cur)) = Some e"
  shows "fst (pebbleIterator_Next c cur) = False
       \<and> pebbleIterator_Err (snd (pebbleIterator_Next c cur)) = Some (Errorf ''unmarshal: %w'' [] e)"
  using assms
  by (cases "Unmarshal c (Iterator_Value (it_iter cur)) (it_value cur)")
     (simp add: pebbleIterator_Next_def skip_loop_hit pebbleIterator_Err_def)

section \<open>Facts about the key space\<close>

lemma written_primary_alias: "written c call = primary_key c call # alias_strings c call"
  by (cases call) (simp_all add: primary_key_def)

lemma written_r_primary_alias: "written_r c call = primary_key c call # alias_strings_r c call"
  by (cases call) (simp_all add: primary_key_def)

lemma separated_add:
  assumes inv: "separated c P db"
    and idP: "Bytes c (KeyFromPeer c p) \<in> P"
    and ks: "set ks \<inter> P = {}"
  shows "separated c P (snd (add c f ks p db))"
proof -
  from add_cases [of c f ks p db] show ?thesis
  proof
    assume "snd (add c f ks p db) = db \<and> fst (add c f ks p db) \<noteq> None"
    with inv show ?thesis by simp
  next
    assume "\<exists>data. Marshal c p = Inr data \<and> commit_fault f = None \<and>
         snd (add c f ks p db) =
           Batch_apply ((Bytes c (KeyFromPeer c p), data) #
             map (\<lambda>key. (key, Bytes c (KeyFromPeer c p))) ks) db"
    then obtain data where enc: "Marshal c p = Inr data"
      and db': "snd (add c f ks p db) =
           Batch_apply ((Bytes c (KeyFromPeer c p), data) #
             map (\<lambda>key. (key, Bytes c (KeyFromPeer c p))) ks) db"
      by blast
    let ?i = "Bytes c (KeyFromPeer c p)"
    have g: "kv_get (snd (add c f ks p db)) k =
               (if k \<in> set ks then Some ?i else if k = ?i then Some data else kv_get db k)" for k
      by (simp add: db' kv_get_Batch_apply_add)
    have ink: "?i \<notin> set ks" using idP ks by auto
    show ?thesis
      unfolding separated_def
    proof (intro allI impI)
      fix k v
      assume kv: "kv_get (snd (add c f ks p db)) k = Some v"
      show "if k \<in> P then \<exists>p. k = Bytes c (KeyFromPeer c p) \<and> Marshal c p = Inr v
            else v \<in> P \<and> kv_get (snd (add c f ks p db)) v \<noteq> None"
      proof (cases "k \<in> set ks")
        case True
        with ks have "k \<notin> P" by auto
        moreover from True kv have "v = ?i" by (simp add: g)
        ultimately show ?thesis using idP ink by (simp add: g)
      next
        case nk: False
        show ?thesis
        proof (cases "k = ?i")
          case True
          with nk kv have "v = data" by (simp add: g)
          with True idP enc show ?thesis by auto
        next
          case False
          with nk kv have old: "kv_get db k = Some v" by (simp add: g)
          from inv [unfolded separated_def, rule_format, OF old]
          show ?thesis by (auto simp: g)
        qed
      qed
    qed
  qed
qed

lemma separated_Add_r:
  assumes inv: "separated c P db" and idP: "Bytes c (KeyFromPeer c p) \<in> P"
  shows "separated c P (snd (Add_r c f p db))"
proof (cases "fst (Add_r c f p db) \<noteq> None")
  case True
  with Add_r_error_unchanged [OF True] inv show ?thesis by simp
next
  case False
  then obtain data where enc: "Marshal c p = Inr data"
    and db': "snd (Add_r c f p db) = kv_set (Bytes c (KeyFromPeer c p)) data db"
    by (auto simp: Add_r_def DB_Set_def Let_def split: sum.splits option.splits)
  let ?i = "Bytes c (KeyFromPeer c p)"
  show ?thesis
    unfolding separated_def db'
  proof (intro allI impI)
    fix k v
    assume kv: "kv_get (kv_set ?i data db) k = Some v"
    show "if k \<in> P then \<exists>p. k = Bytes c (KeyFromPeer c p) \<and> Marshal c p = Inr v
          else v \<in> P \<and> kv_get (kv_set ?i data db) v \<noteq> None"
    proof (cases "k = ?i")
      case True
      with kv have "v = data" by (simp add: kv_get_kv_set)
      with True idP enc show ?thesis by auto
    next
      case False
      with kv have old: "kv_get db k = Some v" by (simp add: kv_get_kv_set)
      from inv [unfolded separated_def, rule_format, OF old]
      show ?thesis by (auto simp: kv_get_kv_set)
    qed
  qed
qed

lemma separated_Assign_r:
  assumes inv: "separated c P db" and idP: "Bytes c (KeyFromPeer c p) \<in> P"
    and key: "key \<notin> P"
  shows "separated c P (snd (Assign_r c f key p db))"
proof (cases "fst (Assign_r c f key p db) \<noteq> None \<and> batch_close_fault f = None
              \<or> commit_fault f \<noteq> None")
  case True
  then have "snd (Assign_r c f key p db) = db"
    using Assign_r_error_unchanged [of f c key p db] Assign_r_commit_fault [of f c key p db]
    by auto
  with inv show ?thesis by simp
next
  case False
  show ?thesis
  proof (cases "snd (Assign_r c f key p db) = db")
    case True
    with inv show ?thesis by simp
  next
    case ne: False
    then obtain data where enc: "Marshal c p = Inr data"
      and db': "snd (Assign_r c f key p db) =
                  Batch_apply ((Bytes c (KeyFromPeer c p), data) #
                    map (\<lambda>key. (key, Bytes c (KeyFromPeer c p))) [key]) db"
      by (auto simp: Assign_r_def Batch_Commit_def Let_def split: sum.splits option.splits)
    have "snd (add c (f\<lparr>commit_fault := None\<rparr>) [key] p db) = snd (Assign_r c f key p db)"
      using enc db' by (simp add: add_def Batch_Commit_def Let_def)
    moreover have "separated c P (snd (add c (f\<lparr>commit_fault := None\<rparr>) [key] p db))"
      using inv idP key by (intro separated_add) auto
    ultimately show ?thesis by simp
  qed
qed

lemma separated_empty: "separated c P []"
  by (simp add: separated_def kv_get_def)

lemma separated_run:
  assumes "separated c P db"
    and "set (primary_keys c steps) \<subseteq> P"
    and "set (alias_keys c steps) \<inter> P = {}"
  shows "separated c P (run c steps db)"
  using assms unfolding run_def primary_keys_def alias_keys_def
proof (induction steps arbitrary: db)
  case Nil
  then show ?case by simp
next
  case (Cons st steps)
  obtain f call where st: "st = (f, call)" by (cases st)
  have "separated c P (exec c st db)"
  proof (cases call)
    case (CallAdd p)
    with Cons.prems show ?thesis
      by (auto simp: st Add_def primary_key_def intro!: separated_add)
  next
    case (CallAssign key p)
    with Cons.prems show ?thesis
      by (auto simp: st Assign_def primary_key_def intro!: separated_add)
  qed
  moreover from Cons.prems(2) have "set (map (\<lambda>st. primary_key c (snd st)) steps) \<subseteq> P"
    by simp
  moreover from Cons.prems(3) have "set (concat (map (\<lambda>st. alias_strings c (snd st)) steps)) \<inter> P = {}"
    by (simp add: Int_Un_distrib2)
  ultimately show ?case
    by (simp add: Cons.IH)
qed

lemma separated_run_r:
  assumes "separated c P db"
    and "set (primary_keys c steps) \<subseteq> P"
    and "set (alias_keys_r c steps) \<inter> P = {}"
  shows "separated c P (run_r c steps db)"
  using assms unfolding run_r_def primary_keys_def alias_keys_r_def
proof (induction steps arbitrary: db)
  case Nil
  then show ?case by simp
next
  case (Cons st steps)
  obtain f call where st: "st = (f, call)" by (cases st)
  have "separated c P (exec_r c st db)"
  proof (cases call)
    case (CallAdd p)
    with Cons.prems show ?thesis
      by (auto simp: st primary_key_def intro!: separated_Add_r)
  next
    case (CallAssign key p)
    with Cons.prems show ?thesis
      by (auto simp: st primary_key_def intro!: separated_Assign_r)
  qed
  moreover from Cons.prems(2) have "set (map (\<lambda>st. primary_key c (snd st)) steps) \<subseteq> P"
    by simp
  moreover from Cons.prems(3) have "set (concat (map (\<lambda>st. alias_strings_r c (snd st)) steps)) \<inter> P = {}"
    by (simp add: Int_Un_distrib2)
  ultimately show ?case
    by (simp add: Cons.IH)
qed

section \<open>The claims\<close>

text \<open>
  In the statements below a successful call is one that returns the error \<open>None\<close>;
  \<open>data\<close> is the encoding of the peer and \<open>q\<close> what that encoding decodes to, the
  peer "equal to \<open>p\<close> under the codec's equality". The hypotheses on \<open>f\<close> say that
  the engine calls of the read in question do not fail.
\<close>

subsection \<open>Alias resolution after Add\<close>

text \<open>
  \<^bold>\<open>C1\<close>, as claimed, fails: \<^verbatim>\<open>Add\<close> of \<^verbatim>\<open>pebble/peer_storage.go\<close> writes the
  record entry only. After it has added a peer with the alias \<^verbatim>\<open>"ab"\<close> to the empty
  store, \<^verbatim>\<open>Resolve("ab")\<close> returns \<^verbatim>\<open>ErrPeerNotFound\<close>.
\<close>

theorem Add_r_writes_no_alias:
  "fst (Add_r ex_collab no_faults (ExPeer 5 [0x61, 0x62]) []) = None
   \<and> [0x61, 0x62] \<in> set (Keys ex_collab (ExPeer 5 [0x61, 0x62]))
   \<and> Resolve_r ex_collab no_faults [0x61, 0x62]
        (snd (Add_r ex_collab no_faults (ExPeer 5 [0x61, 0x62]) []))
      = (ExPeer 0 [], Some ErrPeerNotFound)"
  by code_simp

text \<open>
  \<^bold>\<open>C1\<close>, amended: in the storage with the iterator, for every peer \<open>p\<close> whose
  primary key is not one of its own aliases and every alias \<open>a\<close> of \<^verbatim>\<open>p.Keys()\<close>,
  after \<^verbatim>\<open>Add(p)\<close> has succeeded, \<^verbatim>\<open>Resolve(a)\<close> returns what the encoding of \<open>p\<close>
  decodes to.
\<close>

theorem Resolve_after_Add:
  assumes ok: "Add c f p db = (None, db')"
    and enc: "Marshal c p = Inr data"
    and dec: "Unmarshal c data (zeroPeer c) = (q, None)"
    and nocoll: "Bytes c (KeyFromPeer c p) \<notin> set (Keys c p)"
    and a: "a \<in> set (Keys c p)"
    and rd: "read_fault f a = None" "read_fault f (Bytes c (KeyFromPeer c p)) = None"
    and cl: "closer_fault f = None" "snap_close_fault f = None"
  shows "Resolve c f a db' = (q, None)"
proof -
  from add_success [OF ok [unfolded Add_def]] enc
  have db': "db' = Batch_apply ((Bytes c (KeyFromPeer c p), data) #
               map (\<lambda>key. (key, Bytes c (KeyFromPeer c p))) (Keys c p)) db"
    by simp
  have 1: "kv_get db' a = Some (Bytes c (KeyFromPeer c p))"
    using a by (simp add: db' kv_get_Batch_apply_add)
  have 2: "kv_get db' (Bytes c (KeyFromPeer c p)) = Some data"
    using nocoll by (simp add: db' kv_get_Batch_apply_add)
  show ?thesis using 1 2 rd cl dec by (rule Resolve_hit)
qed

theorem Resolve_after_Add_witness:
  "fst (Add ex_collab no_faults (ExPeer 5 [0x61, 0x62]) []) = None
   \<and> [0x61, 0x62] \<in> set (Keys ex_collab (ExPeer 5 [0x61, 0x62]))
   \<and> Resolve ex_collab no_faults [0x61, 0x62]
        (snd (Add ex_collab no_faults (ExPeer 5 [0x61, 0x62]) [])) = (ExPeer 5 [0x61, 0x62], None)"
proof -
  have ok: "Add ex_collab no_faults (ExPeer 5 [0x61, 0x62]) [] =
            (None, snd (Add ex_collab no_faults (ExPeer 5 [0x61, 0x62]) []))"
    by code_simp
  have enc: "Marshal ex_collab (ExPeer 5 [0x61, 0x62]) = Inr [0x7B, 5, 0x61, 0x62]"
    by (simp add: ex_collab_def)
  have dec: "Unmarshal ex_collab [0x7B, 5, 0x61, 0x62] (zeroPeer ex_collab)
             = (ExPeer 5 [0x61, 0x62], None)"
    by (simp add: ex_collab_def)
  have nocoll: "Bytes ex_collab (KeyFromPeer ex_collab (ExPeer 5 [0x61, 0x62]))
                \<notin> set (Keys ex_collab (ExPeer 5 [0x61, 0x62]))"
    by (simp add: ex_collab_def)
  have a: "[0x61, 0x62] \<in> set (Keys ex_collab (ExPeer 5 [0x61, 0x62]))"
    by (simp add: ex_collab_def)
  have "Resolve ex_collab no_faults [0x61, 0x62]
          (snd (Add ex_collab no_faults (ExPeer 5 [0x61, 0x62]) [])) = (ExPeer 5 [0x61, 0x62], None)"
    by (rule Resolve_after_Add [OF ok enc dec nocoll a]) (simp_all add: no_faults_simps)
  moreover have "fst (Add ex_collab no_faults (ExPeer 5 [0x61, 0x62]) []) = None"
    by code_simp
  ultimately show ?thesis using a by simp
qed

subsection \<open>Round trip\<close>

text \<open>
  \<^bold>\<open>C5\<close>, as claimed, fails: \<^verbatim>\<open>add\<close> writes the aliases of \<^verbatim>\<open>Keys()\<close> after the
  record entry, in the same batch and unchecked. For a peer whose alias is its own
  primary key, \<^verbatim>\<open>Add\<close> succeeds and the encoding decodes to the peer, but the alias
  entry has replaced the record entry and \<^verbatim>\<open>Find\<close> returns a decode error.
\<close>

theorem Add_own_alias_overwrites_record:
  "fst (Add ex_collab no_faults (ExPeer 5 [0x70, 0x65, 0x65, 0x72, 5]) []) = None
   \<and> Marshal ex_collab (ExPeer 5 [0x70, 0x65, 0x65, 0x72, 5])
       = Inr [0x7B, 5, 0x70, 0x65, 0x65, 0x72, 5]
   \<and> Unmarshal ex_collab [0x7B, 5, 0x70, 0x65, 0x65, 0x72, 5] (zeroPeer ex_collab)
       = (ExPeer 5 [0x70, 0x65, 0x65, 0x72, 5], None)
   \<and> Bytes ex_collab (KeyFromPeer ex_collab (ExPeer 5 [0x70, 0x65, 0x65, 0x72, 5]))
       \<in> set (Keys ex_collab (ExPeer 5 [0x70, 0x65, 0x65, 0x72, 5]))
   \<and> Find ex_collab no_faults (KeyFromPeer ex_collab (ExPeer 5 [0x70, 0x65, 0x65, 0x72, 5]))
        (snd (Add ex_collab no_faults (ExPeer 5 [0x70, 0x65, 0x65, 0x72, 5]) []))
       = (ExPeer 0 [], Some (Errorf ''unmarshal: %w'' [] (JSONError 0)))"
  by code_simp

text \<open>
  \<^bold>\<open>C5\<close>, amended: for every peer \<open>p\<close> whose primary key is not one of the aliases
  that \<^verbatim>\<open>p.Keys()\<close> returns, after \<^verbatim>\<open>Add(p)\<close> has succeeded, \<^verbatim>\<open>Find\<close> on the key
  derived from \<open>p\<close> returns what the encoding of \<open>p\<close> decodes to.
\<close>

theorem Find_after_Add:
  assumes ok: "Add c f p db = (None, db')"
    and enc: "Marshal c p = Inr data"
    and dec: "Unmarshal c data (zeroPeer c) = (q, None)"
    and nocoll: "Bytes c (KeyFromPeer c p) \<notin> set (Keys c p)"
    and rd: "read_fault f (Bytes c (KeyFromPeer c p)) = None"
    and cl: "closer_fault f = None"
  shows "Find c f (KeyFromPeer c p) db' = (q, None)"
proof -
  from add_success [OF ok [unfolded Add_def]] enc
  have db': "db' = Batch_apply ((Bytes c (KeyFromPeer c p), data) #
               map (\<lambda>key. (key, Bytes c (KeyFromPeer c p))) (Keys c p)) db"
    by simp
  have "kv_get db' (Bytes c (KeyFromPeer c p)) = Some data"
    using nocoll by (simp add: db' kv_get_Batch_apply_add)
  then show ?thesis using rd cl dec by (rule Find_hit)
qed

theorem Find_after_Add_witness:
  "fst (Add ex_collab no_faults (ExPeer 5 [0x61, 0x62]) []) = None
   \<and> Find ex_collab no_faults (KeyFromPeer ex_collab (ExPeer 5 [0x61, 0x62]))
        (snd (Add ex_collab no_faults (ExPeer 5 [0x61, 0x62]) [])) = (ExPeer 5 [0x61, 0x62], None)"
proof -
  have ok: "Add ex_collab no_faults (ExPeer 5 [0x61, 0x62]) [] =
            (None, snd (Add ex_collab no_faults (ExPeer 5 [0x61, 0x62]) []))"
    by code_simp
  have enc: "Marshal ex_collab (ExPeer 5 [0x61, 0x62]) = Inr [0x7B, 5, 0x61, 0x62]"
    by (simp add: ex_collab_def)
  have dec: "Unmarshal ex_collab [0x7B, 5, 0x61, 0x62] (zeroPeer ex_collab)
             = (ExPeer 5 [0x61, 0x62], None)"
    by (simp add: ex_collab_def)
  have nocoll: "Bytes ex_collab (KeyFromPeer ex_collab (ExPeer 5 [0x61, 0x62]))
                \<notin> set (Keys ex_collab (ExPeer 5 [0x61, 0x62]))"
    by (simp add: ex_collab_def)
  have "Find ex_collab no_faults (KeyFromPeer ex_collab (ExPeer 5 [0x61, 0x62]))
          (snd (Add ex_collab no_faults (ExPeer 5 [0x61, 0x62]) [])) = (ExPeer 5 [0x61, 0x62], None)"
    by (rule Find_after_Add [OF ok enc dec nocoll]) (simp_all add: no_faults_simps)
  moreover have "fst (Add ex_collab no_faults (ExPeer 5 [0x61, 0x62]) []) = None"
    by code_simp
  ultimately show ?thesis by simp
qed

subsection \<open>A dangling alias\<close>

text \<open>
  \<^bold>\<open>C10\<close>, as claimed, fails: \<^verbatim>\<open>Resolve\<close> decodes whatever entry lies under the
  value of the alias entry, record or not. After \<^verbatim>\<open>Assign(k, p)\<close> with \<open>k\<close> the
  primary key of \<open>p\<close>, the store holds alias entries only (the alias \<^verbatim>\<open>"ab"\<close> of
  \<open>p\<close> and \<open>k\<close>, both with the value \<open>k\<close>) and no record entry; \<^verbatim>\<open>Resolve("ab")\<close>
  returns a decode error, in both files, and so does \<^verbatim>\<open>Resolve(k)\<close> after the
  \<^verbatim>\<open>Assign\<close> of \<^verbatim>\<open>pebble/peer_storage.go\<close>.
\<close>

theorem Resolve_alias_of_overwritten_record:
  "snd (Assign ex_collab no_faults [0x70, 0x65, 0x65, 0x72, 5] (ExPeer 5 [0x61, 0x62]) [])
     = [([0x61, 0x62], [0x70, 0x65, 0x65, 0x72, 5]),
        ([0x70, 0x65, 0x65, 0x72, 5], [0x70, 0x65, 0x65, 0x72, 5])]
   \<and> alias_strings ex_collab (CallAssign [0x70, 0x65, 0x65, 0x72, 5] (ExPeer 5 [0x61, 0x62]))
     = [[0x61, 0x62], [0x70, 0x65, 0x65, 0x72, 5]]
   \<and> Resolve ex_collab no_faults [0x61, 0x62]
        [([0x61, 0x62], [0x70, 0x65, 0x65, 0x72, 5]),
         ([0x70, 0x65, 0x65, 0x72, 5], [0x70, 0x65, 0x65, 0x72, 5])]
     = (ExPeer 0 [], Some (Errorf ''unmarshal: %w'' [] (JSONError 0)))
   \<and> Resolve_r ex_collab no_faults [0x61, 0x62]
        [([0x61, 0x62], [0x70, 0x65, 0x65, 0x72, 5]),
         ([0x70, 0x65, 0x65, 0x72, 5], [0x70, 0x65, 0x65, 0x72, 5])]
     = (ExPeer 0 [], Some (Errorf ''unmarshal: %w'' [] (JSONError 0)))
   \<and> snd (Assign_r ex_collab no_faults [0x70, 0x65, 0x65, 0x72, 5] (ExPeer 5 [0x61, 0x62]) [])
     = [([0x70, 0x65, 0x65, 0x72, 5], [0x70, 0x65, 0x65, 0x72, 5])]
   \<and> Resolve_r ex_collab no_faults [0x70, 0x65, 0x65, 0x72, 5]
        [([0x70, 0x65, 0x65, 0x72, 5], [0x70, 0x65, 0x65, 0x72, 5])]
     = (ExPeer 0 [], Some (Errorf ''unmarshal: %w'' [] (JSONError 0)))"
  by code_simp

text \<open>
  \<^bold>\<open>C10\<close>, amended: in every engine state where the alias \<open>a\<close> has an entry whose
  value \<open>v\<close> is the key of no entry at all, \<^verbatim>\<open>Resolve(a)\<close> returns
  \<^verbatim>\<open>ErrPeerNotFound\<close>, in both files: the same result as for an alias \<open>b\<close> that has
  no entry, and neither a decode error nor any other.
\<close>

theorem Resolve_dangling_alias:
  assumes "kv_get db a = Some v" and "kv_get db v = None"
    and "kv_get db b = None"
    and "read_fault f a = None" and "read_fault f v = None" and "read_fault f b = None"
    and "closer_fault f = None" and "snap_close_fault f = None"
  shows "Resolve c f a db = (zeroPeer c, Some ErrPeerNotFound)
       \<and> Resolve_r c f a db = (zeroPeer c, Some ErrPeerNotFound)
       \<and> Resolve c f a db = Resolve c f b db
       \<and> Resolve_r c f a db = Resolve_r c f b db"
  using assms by (simp add: Resolve_miss1 Resolve_miss2)

theorem Resolve_dangling_alias_witness:
  "kv_get [([0x61, 0x62], [0x70, 0x65, 0x65, 0x72, 5])] [0x61, 0x62] = Some [0x70, 0x65, 0x65, 0x72, 5]
   \<and> kv_get [([0x61, 0x62], [0x70, 0x65, 0x65, 0x72, 5])] [0x70, 0x65, 0x65, 0x72, 5] = None
   \<and> Resolve ex_collab no_faults [0x61, 0x62] [([0x61, 0x62], [0x70, 0x65, 0x65, 0x72, 5])]
       = (ExPeer 0 [], Some ErrPeerNotFound)
   \<and> Resolve_r ex_collab no_faults [0x61, 0x62] [([0x61, 0x62], [0x70, 0x65, 0x65, 0x72, 5])]
       = (ExPeer 0 [], Some ErrPeerNotFound)"
proof -
  have 1: "kv_get [([0x61, 0x62], [0x70, 0x65, 0x65, 0x72, 5])] [0x61, 0x62]
           = Some [0x70, 0x65, 0x65, 0x72, 5]"
    by (simp add: kv_get_def)
  have 2: "kv_get [([0x61, 0x62], [0x70, 0x65, 0x65, 0x72, 5])] [0x70, 0x65, 0x65, 0x72, 5] = None"
    by (simp add: kv_get_def)
  have 3: "kv_get [([0x61, 0x62], [0x70, 0x65, 0x65, 0x72, 5 :: byte])] [0x63, 0x64] = None"
    by (simp add: kv_get_def)
  have z: "zeroPeer ex_collab = ExPeer 0 []"
    by (simp add: ex_collab_def)
  from Resolve_dangling_alias [OF 1 2 3, of no_faults ex_collab] 1 2 z
  show ?thesis by (simp add: no_faults_simps)
qed

subsection \<open>Atomic writes\<close>

text \<open>
  \<^bold>\<open>C2.\<close> \<^verbatim>\<open>Add\<close> and \<^verbatim>\<open>Assign\<close> are atomic. When the commit of the batch fails,
  the call returns an error and the content of the store is what it was, so that no
  later read sees the record entry or an alias entry of the call. More generally a
  call that returns an error has left the store unchanged, as long as closing the
  batch does not fail after a commit that succeeded; \<^verbatim>\<open>Add\<close> of
  \<^verbatim>\<open>pebble/peer_storage.go\<close> makes one write, which fails or lands.
\<close>

theorem commit_failure_atomic:
  "(commit_fault f \<noteq> None \<longrightarrow>
      snd (Add c f p db) = db \<and> fst (Add c f p db) \<noteq> None
      \<and> snd (Assign c f key p db) = db \<and> fst (Assign c f key p db) \<noteq> None
      \<and> snd (Assign_r c f key p db) = db \<and> fst (Assign_r c f key p db) \<noteq> None)
   \<and> (batch_close_fault f = None \<longrightarrow>
        (fst (Add c f p db) \<noteq> None \<longrightarrow> snd (Add c f p db) = db)
        \<and> (fst (Assign c f key p db) \<noteq> None \<longrightarrow> snd (Assign c f key p db) = db)
        \<and> (fst (Assign_r c f key p db) \<noteq> None \<longrightarrow> snd (Assign_r c f key p db) = db))
   \<and> (fst (Add_r c f p db) \<noteq> None \<longrightarrow> snd (Add_r c f p db) = db)"
  by (simp add: Add_def Assign_def add_commit_fault add_error_unchanged
        Assign_r_commit_fault Assign_r_error_unchanged Add_r_error_unchanged)

theorem commit_failure_atomic_witness:
  "commit_fault (no_faults\<lparr>commit_fault := Some (EngineError 1),
                            set_fault := (\<lambda>k. Some (EngineError 2))\<rparr>) \<noteq> None
   \<and> snd (Add ex_collab (no_faults\<lparr>commit_fault := Some (EngineError 1),
                            set_fault := (\<lambda>k. Some (EngineError 2))\<rparr>)
            (ExPeer 5 [0x61, 0x62]) [([0x7A], [0x01])]) = [([0x7A], [0x01])]
   \<and> snd (Assign ex_collab (no_faults\<lparr>commit_fault := Some (EngineError 1),
                            set_fault := (\<lambda>k. Some (EngineError 2))\<rparr>)
            [0x63, 0x64] (ExPeer 5 [0x61, 0x62]) [([0x7A], [0x01])]) = [([0x7A], [0x01])]
   \<and> snd (Assign_r ex_collab (no_faults\<lparr>commit_fault := Some (EngineError 1),
                            set_fault := (\<lambda>k. Some (EngineError 2))\<rparr>)
            [0x63, 0x64] (ExPeer 5 [0x61, 0x62]) [([0x7A], [0x01])]) = [([0x7A], [0x01])]
   \<and> fst (Add_r ex_collab (no_faults\<lparr>commit_fault := Some (EngineError 1),
                            set_fault := (\<lambda>k. Some (EngineError 2))\<rparr>)
            (ExPeer 5 [0x61, 0x62]) [([0x7A], [0x01])]) \<noteq> None
   \<and> snd (Add_r ex_collab (no_faults\<lparr>commit_fault := Some (EngineError 1),
                            set_fault := (\<lambda>k. Some (EngineError 2))\<rparr>)
            (ExPeer 5 [0x61, 0x62]) [([0x7A], [0x01])]) = [([0x7A], [0x01])]"
proof -
  let ?f = "no_faults\<lparr>commit_fault := Some (EngineError 1),
                        set_fault := (\<lambda>k. Some (EngineError 2))\<rparr>"
  have 1: "commit_fault ?f \<noteq> None" by simp
  have 2: "fst (Add_r ex_collab ?f (ExPeer 5 [0x61, 0x62]) [([0x7A], [0x01])]) \<noteq> None"
    by (simp add: Add_r_def DB_Set_def ex_collab_def)
  from commit_failure_atomic [of ?f ex_collab "ExPeer 5 [0x61, 0x62]" "[([0x7A], [0x01])]"
         "[0x63, 0x64]"] 1 2
  show ?thesis by simp
qed

subsection \<open>Keys that were never written\<close>

text \<open>
  \<^bold>\<open>C6.\<close> In every state that calls of \<^verbatim>\<open>Add\<close> and \<^verbatim>\<open>Assign\<close> produce from the
  empty store, \<^verbatim>\<open>Find\<close> on an identity whose key no call has written, and
  \<^verbatim>\<open>Resolve\<close> on an alias that no call has written, return \<^verbatim>\<open>ErrPeerNotFound\<close>
  (and the zero peer), not a decode error: in both files.
\<close>

theorem never_written_NotFound:
  assumes "Bytes c key \<notin> set (written_keys c steps)"
    and "Bytes c key \<notin> set (written_keys_r c steps)"
    and "a \<notin> set (written_keys c steps)"
    and "a \<notin> set (written_keys_r c steps)"
    and "read_fault f (Bytes c key) = None" and "read_fault f a = None"
    and "snap_close_fault f = None"
  shows "Find c f key (run c steps []) = (zeroPeer c, Some ErrPeerNotFound)
       \<and> Find_r c f key (run_r c steps []) = (zeroPeer c, Some ErrPeerNotFound)
       \<and> Resolve c f a (run c steps []) = (zeroPeer c, Some ErrPeerNotFound)
       \<and> Resolve_r c f a (run_r c steps []) = (zeroPeer c, Some ErrPeerNotFound)"
proof -
  have e: "kv_get [] x = None" for x by (simp add: kv_get_def)
  have 1: "kv_get (run c steps []) (Bytes c key) = None"
    using assms(1) by (simp add: kv_get_run_other e)
  have 2: "kv_get (run_r c steps []) (Bytes c key) = None"
    using assms(2) by (simp add: kv_get_run_r_other e)
  have 3: "kv_get (run c steps []) a = None"
    using assms(3) by (simp add: kv_get_run_other e)
  have 4: "kv_get (run_r c steps []) a = None"
    using assms(4) by (simp add: kv_get_run_r_other e)
  show ?thesis
    using Find_miss(1) [OF 1 assms(5)] Find_miss(2) [OF 2 assms(5)]
      Resolve_miss1(1) [OF 3 assms(6,7), of c] Resolve_miss1(2) [OF 4 assms(6,7), of c]
    by simp
qed

theorem never_written_NotFound_witness:
  "Find ex_collab no_faults 7 (run ex_collab [(no_faults, CallAdd (ExPeer 5 [0x61, 0x62]))] [])
     = (ExPeer 0 [], Some ErrPeerNotFound)
   \<and> Find_r ex_collab no_faults 7 (run_r ex_collab [(no_faults, CallAdd (ExPeer 5 [0x61, 0x62]))] [])
     = (ExPeer 0 [], Some ErrPeerNotFound)
   \<and> Resolve ex_collab no_faults [0x63, 0x64]
       (run ex_collab [(no_faults, CallAdd (ExPeer 5 [0x61, 0x62]))] [])
     = (ExPeer 0 [], Some ErrPeerNotFound)
   \<and> Resolve_r ex_collab no_faults [0x63, 0x64]
       (run_r ex_collab [(no_faults, CallAdd (ExPeer 5 [0x61, 0x62]))] [])
     = (ExPeer 0 [], Some ErrPeerNotFound)"
proof -
  let ?steps = "[(no_faults, CallAdd (ExPeer 5 [0x61, 0x62]))]"
  have 1: "Bytes ex_collab 7 \<notin> set (written_keys ex_collab ?steps)"
    by (simp add: written_keys_def ex_collab_def)
  have 2: "Bytes ex_collab 7 \<notin> set (written_keys_r ex_collab ?steps)"
    by (simp add: written_keys_r_def ex_collab_def)
  have 3: "[0x63, 0x64] \<notin> set (written_keys ex_collab ?steps)"
    by (simp add: written_keys_def ex_collab_def)
  have 4: "[0x63, 0x64] \<notin> set (written_keys_r ex_collab ?steps)"
    by (simp add: written_keys_r_def ex_collab_def)
  have z: "zeroPeer ex_collab = ExPeer 0 []"
    by (simp add: ex_collab_def)
  from never_written_NotFound [OF 1 2 3 4, of no_faults] z
  show ?thesis by (simp add: no_faults_simps)
qed

subsection \<open>What a cursor yields\<close>

text \<open>
  \<^bold>\<open>C4\<close>, as claimed, fails: the cursor visits every entry whose key begins with
  \<^verbatim>\<open>storage.KeyPrefix\<close>, and stops at the first whose value does not decode.
  After \<^verbatim>\<open>Assign("peer", p)\<close> on the empty store the alias entry \<^verbatim>\<open>"peer"\<close> is the
  first entry in the range; its value is a primary key, which does not decode, and
  the cursor yields nothing although the record of \<open>p\<close> is stored.
\<close>

theorem Iterate_stops_at_alias:
  "fst (Assign ex_collab no_faults [0x70, 0x65, 0x65, 0x72] (ExPeer 5 [0x61, 0x62]) []) = None
   \<and> Find ex_collab no_faults 5
        (snd (Assign ex_collab no_faults [0x70, 0x65, 0x65, 0x72] (ExPeer 5 [0x61, 0x62]) []))
       = (ExPeer 5 [0x61, 0x62], None)
   \<and> fst (exhaust ex_collab (fst (Iterate ex_collab no_faults
        (snd (Assign ex_collab no_faults [0x70, 0x65, 0x65, 0x72] (ExPeer 5 [0x61, 0x62]) []))))) = []"
  by code_simp

text \<open>
  \<^bold>\<open>C4\<close>, amended: for every engine state in which every entry whose key begins
  with \<^verbatim>\<open>storage.KeyPrefix\<close> can be read and decodes (to \<open>dcd v\<close> for its value
  \<open>v\<close>, whatever the destination held before), exhausting an \<^verbatim>\<open>Iterate()\<close> cursor
  yields the decoded values of exactly those entries, in key order and each once
  (their keys are distinct), yields no entry whose key does not begin with the
  prefix, and leaves \<^verbatim>\<open>Err()\<close> nil.
\<close>

theorem exhaust_Iterate_prefixed:
  assumes "kv_ordered db"
    and "\<forall>(k, v) \<in> set (prefixed c db).
           read_fault f k = None \<and> (\<forall>dst. Unmarshal c v dst = (dcd v, None))"
  shows "fst (exhaust c (fst (Iterate c f db))) = map (\<lambda>(k, v). dcd v) (prefixed c db)
       \<and> distinct (map fst (prefixed c db))
       \<and> pebbleIterator_Err (snd (exhaust c (fst (Iterate c f db)))) = None"
proof -
  have "\<forall>(k, v) \<in> set (prefixed c db). HasPrefix k (KeyPrefix c)"
    by (auto simp: prefixed_def)
  with assms(2) have
    "\<forall>(k, v) \<in> set (prefixed c db). HasPrefix k (KeyPrefix c)
        \<and> iter_fault (it_iter (fst (Iterate c f db))) k = None
        \<and> (\<forall>dst. Unmarshal c v dst = (dcd v, None))"
    by (auto simp: Iterate_fields)
  from exhaust_all_decoded [OF Iterate_remaining this] distinct_prefixed [OF assms(1)]
  show ?thesis by (simp add: pebbleIterator_Err_def Iterate_fields)
qed

theorem exhaust_Iterate_prefixed_witness:
  "kv_ordered [([0x61, 0x62], [0x70, 0x65, 0x65, 0x72, 5]),
               ([0x70, 0x65, 0x65, 0x72, 5], [0x7B, 5, 0x61, 0x62]),
               ([0x70, 0x65, 0x65, 0x72, 6], [0x7B, 6])]
   \<and> fst (exhaust ex_collab (fst (Iterate ex_collab no_faults
        [([0x61, 0x62], [0x70, 0x65, 0x65, 0x72, 5]),
         ([0x70, 0x65, 0x65, 0x72, 5], [0x7B, 5, 0x61, 0x62]),
         ([0x70, 0x65, 0x65, 0x72, 6], [0x7B, 6])])))
       = [ExPeer 5 [0x61, 0x62], ExPeer 6 []]"
proof -
  let ?db = "[([0x61, 0x62], [0x70, 0x65, 0x65, 0x72, 5]),
              ([0x70, 0x65, 0x65, 0x72, 5], [0x7B, 5, 0x61, 0x62]),
              ([0x70, 0x65, 0x65, 0x72, 6], [0x7B, 6 :: byte])]"
  let ?dcd = "\<lambda>v :: bytes. ExPeer (v ! 1) (drop 2 v)"
  have o: "kv_ordered ?db"
    by (simp add: kv_ordered_def)
  have p: "prefixed ex_collab ?db =
             [([0x70, 0x65, 0x65, 0x72, 5], [0x7B, 5, 0x61, 0x62]),
              ([0x70, 0x65, 0x65, 0x72, 6], [0x7B, 6])]"
    by (simp add: prefixed_def ex_collab_def)
  have h: "\<forall>(k, v) \<in> set (prefixed ex_collab ?db).
             read_fault no_faults k = None
             \<and> (\<forall>dst. Unmarshal ex_collab v dst = (?dcd v, None))"
    unfolding p by (simp add: no_faults_simps ex_collab_def)
  from exhaust_Iterate_prefixed [OF o h] o
  show ?thesis by (simp add: p)
qed

subsection \<open>Snapshot isolation\<close>

text \<open>
  \<^bold>\<open>C3\<close>, as claimed, fails in its second half: \<^verbatim>\<open>Find\<close> does not see every peer
  that \<^verbatim>\<open>Add\<close> has added. A peer whose alias is its own primary key is added after
  \<^verbatim>\<open>Iterate()\<close> on the empty store; the \<^verbatim>\<open>Add\<close> succeeds, the cursor yields
  nothing, and \<^verbatim>\<open>Find\<close> on the peer's identity returns a decode error, since the
  batch has written the alias entry over the record entry.
\<close>

theorem Find_after_snapshot_own_alias:
  "fst (Add ex_collab no_faults (ExPeer 5 [0x70, 0x65, 0x65, 0x72, 5])
         (s_db (session_start ex_collab no_faults []))) = None
   \<and> s_yielded (session_run ex_collab
         [DoAdd no_faults (ExPeer 5 [0x70, 0x65, 0x65, 0x72, 5]), DoNext]
         (session_start ex_collab no_faults [])) = []
   \<and> Find ex_collab no_faults (KeyFromPeer ex_collab (ExPeer 5 [0x70, 0x65, 0x65, 0x72, 5]))
        (s_db (session_run ex_collab
           [DoAdd no_faults (ExPeer 5 [0x70, 0x65, 0x65, 0x72, 5]), DoNext]
           (session_start ex_collab no_faults [])))
       = (ExPeer 0 [], Some (Errorf ''unmarshal: %w'' [] (JSONError 0)))"
  by code_simp

text \<open>
  \<^bold>\<open>C3\<close>, amended: a cursor is bound to the snapshot that \<^verbatim>\<open>Iterate()\<close> took. Let
  \<^verbatim>\<open>Iterate()\<close> be called on the store \<open>db\<close>, let any calls of \<^verbatim>\<open>Add\<close>,
  \<^verbatim>\<open>Assign\<close> and \<^verbatim>\<open>Next\<close> follow (\<open>evs\<close>), and let \<^verbatim>\<open>Add(p)\<close> then succeed and
  leave the store \<open>db'\<close>, for a peer \<open>p\<close> that is new (no entry of \<open>db\<close> under
  \<^verbatim>\<open>storage.KeyPrefix\<close> decodes to \<open>p\<close>, or to \<open>q\<close>, what the encoding of \<open>p\<close>
  decodes to) and whose primary key is not one of its own aliases. However often
  the cursor is advanced after that \<^verbatim>\<open>Add\<close>, in the session whose store is \<open>db'\<close>,
  it never yields \<open>p\<close>, while \<^verbatim>\<open>Find\<close> on the key of \<open>p\<close> returns \<open>q\<close> from
  \<open>db'\<close>. The cursor may meet any engine failure \<open>f0\<close>.
\<close>

theorem cursor_is_bound_to_snapshot:
  assumes new: "\<forall>(k, v) \<in> set (prefixed c db). \<forall>dst x. Unmarshal c v dst = (x, None) \<longrightarrow> x \<notin> {p, q}"
    and ok: "Add c f p (s_db (session_run c evs (session_start c f0 db))) = (None, db')"
    and enc: "Marshal c p = Inr data"
    and dec: "Unmarshal c data (zeroPeer c) = (q, None)"
    and nocoll: "Bytes c (KeyFromPeer c p) \<notin> set (Keys c p)"
    and rd: "read_fault f (Bytes c (KeyFromPeer c p)) = None"
    and cl: "closer_fault f = None"
  shows "p \<notin> set (s_yielded (session_run c (evs @ DoAdd f p # replicate n DoNext)
                                 (session_start c f0 db)))
       \<and> q \<notin> set (s_yielded (session_run c (evs @ DoAdd f p # replicate n DoNext)
                                   (session_start c f0 db)))
       \<and> s_db (session_run c (evs @ DoAdd f p # replicate n DoNext) (session_start c f0 db)) = db'
       \<and> Find c f (KeyFromPeer c p) db' = (q, None)"
proof -
  let ?s = "session_run c (evs @ DoAdd f p # replicate n DoNext) (session_start c f0 db)"
  have inv: "from_snapshot c (prefixed c db) ?s"
    by (rule from_snapshot_run) (rule from_snapshot_start)
  have "x \<notin> set (s_yielded ?s)" if "x \<in> {p, q}" for x
  proof
    assume "x \<in> set (s_yielded ?s)"
    with inv obtain k v dst where "(k, v) \<in> set (prefixed c db)" "Unmarshal c v dst = (x, None)"
      unfolding from_snapshot_def by blast
    with new that show False by blast
  qed
  moreover have "s_db ?s = db'"
    using ok by (simp add: session_run_def s_db_Nexts)
  moreover have "Find c f (KeyFromPeer c p) db' = (q, None)"
  proof -
    from add_success [OF ok [unfolded Add_def]] enc
    have db': "db' = Batch_apply ((Bytes c (KeyFromPeer c p), data) #
                 map (\<lambda>key. (key, Bytes c (KeyFromPeer c p))) (Keys c p))
                 (s_db (session_run c evs (session_start c f0 db)))"
      by simp
    have "kv_get db' (Bytes c (KeyFromPeer c p)) = Some data"
      using nocoll by (simp only: db' kv_get_Batch_apply_add) simp
    then show ?thesis using rd cl dec by (rule Find_hit)
  qed
  ultimately show ?thesis by simp
qed

theorem cursor_is_bound_to_snapshot_witness:
  "s_yielded (session_run ex_collab
       [DoNext, DoAdd no_faults (ExPeer 5 [0x61, 0x62]), DoNext, DoNext]
       (session_start ex_collab no_faults
          [([0x63, 0x64], [0x70, 0x65, 0x65, 0x72, 6]),
           ([0x70, 0x65, 0x65, 0x72, 6], [0x7B, 6, 0x63, 0x64]),
           ([0x70, 0x65, 0x65, 0x72, 7], [0x7B, 7])]))
     = [ExPeer 6 [0x63, 0x64], ExPeer 7 []]
   \<and> ExPeer 5 [0x61, 0x62] \<notin> set (s_yielded (session_run ex_collab
       [DoNext, DoAdd no_faults (ExPeer 5 [0x61, 0x62]), DoNext, DoNext]
       (session_start ex_collab no_faults
          [([0x63, 0x64], [0x70, 0x65, 0x65, 0x72, 6]),
           ([0x70, 0x65, 0x65, 0x72, 6], [0x7B, 6, 0x63, 0x64]),
           ([0x70, 0x65, 0x65, 0x72, 7], [0x7B, 7])])))
   \<and> Find ex_collab no_faults (KeyFromPeer ex_collab (ExPeer 5 [0x61, 0x62]))
        (s_db (session_run ex_collab
           [DoNext, DoAdd no_faults (ExPeer 5 [0x61, 0x62]), DoNext, DoNext]
           (session_start ex_collab no_faults
              [([0x63, 0x64], [0x70, 0x65, 0x65, 0x72, 6]),
               ([0x70, 0x65, 0x65, 0x72, 6], [0x7B, 6, 0x63, 0x64]),
               ([0x70, 0x65, 0x65, 0x72, 7], [0x7B, 7])])))
       = (ExPeer 5 [0x61, 0x62], None)"
proof -
  let ?db = "[([0x63, 0x64], [0x70, 0x65, 0x65, 0x72, 6]),
              ([0x70, 0x65, 0x65, 0x72, 6], [0x7B, 6, 0x63, 0x64]),
              ([0x70, 0x65, 0x65, 0x72, 7], [0x7B, 7 :: byte])]"
  let ?p = "ExPeer 5 [0x61, 0x62]"
  let ?db' = "snd (Add ex_collab no_faults ?p
                 (s_db (session_run ex_collab [DoNext] (session_start ex_collab no_faults ?db))))"
  have pre: "prefixed ex_collab ?db =
               [([0x70, 0x65, 0x65, 0x72, 6], [0x7B, 6, 0x63, 0x64]),
                ([0x70, 0x65, 0x65, 0x72, 7], [0x7B, 7])]"
    by (simp add: prefixed_def ex_collab_def)
  have new: "\<forall>(k, v) \<in> set (prefixed ex_collab ?db).
               \<forall>dst x. Unmarshal ex_collab v dst = (x, None) \<longrightarrow> x \<notin> {?p, ?p}"
    unfolding pre by (auto simp: ex_collab_def)
  have okf: "fst (Add ex_collab no_faults ?p
                (s_db (session_run ex_collab [DoNext] (session_start ex_collab no_faults ?db))))
             = None"
    by code_simp
  then have ok: "Add ex_collab no_faults ?p
                (s_db (session_run ex_collab [DoNext] (session_start ex_collab no_faults ?db)))
             = (None, ?db')"
    by (simp add: prod_eq_iff)
  have enc: "Marshal ex_collab ?p = Inr [0x7B, 5, 0x61, 0x62]"
    by (simp add: ex_collab_def)
  have dec: "Unmarshal ex_collab [0x7B, 5, 0x61, 0x62] (zeroPeer ex_collab) = (?p, None)"
    by (simp add: ex_collab_def)
  have nocoll: "Bytes ex_collab (KeyFromPeer ex_collab ?p) \<notin> set (Keys ex_collab ?p)"
    by (simp add: ex_collab_def)
  have rd: "read_fault no_faults (Bytes ex_collab (KeyFromPeer ex_collab ?p)) = None"
    and cl: "closer_fault no_faults = None"
    by (simp_all add: no_faults_simps)
  have ys: "s_yielded (session_run ex_collab [DoNext, DoAdd no_faults ?p, DoNext, DoNext]
              (session_start ex_collab no_faults ?db)) = [ExPeer 6 [0x63, 0x64], ExPeer 7 []]"
    by code_simp
  from cursor_is_bound_to_snapshot [OF new ok enc dec nocoll rd cl, of "Suc (Suc 0)"] ys
  show ?thesis by simp
qed

subsection \<open>Primary keys and alias keys\<close>

text \<open>
  \<^bold>\<open>C8\<close>, as claimed, fails: \<^verbatim>\<open>Assign\<close> writes the alias string it is given as a
  key, whatever it is. When the string is the primary key of the peer, the alias
  entry is written over the record entry in the same batch: the key then holds
  itself, and \<^verbatim>\<open>Find\<close> on the peer's identity returns a decode error. That is so
  in both files.
\<close>

theorem Assign_alias_equals_primary_key:
  "primary_key ex_collab (CallAssign [0x70, 0x65, 0x65, 0x72, 5] (ExPeer 5 [0x61, 0x62]))
     \<in> set (alias_strings ex_collab (CallAssign [0x70, 0x65, 0x65, 0x72, 5] (ExPeer 5 [0x61, 0x62])))
   \<and> primary_key ex_collab (CallAssign [0x70, 0x65, 0x65, 0x72, 5] (ExPeer 5 [0x61, 0x62]))
     \<in> set (alias_strings_r ex_collab (CallAssign [0x70, 0x65, 0x65, 0x72, 5] (ExPeer 5 [0x61, 0x62])))
   \<and> fst (Assign ex_collab no_faults [0x70, 0x65, 0x65, 0x72, 5] (ExPeer 5 [0x61, 0x62]) []) = None
   \<and> kv_get (snd (Assign ex_collab no_faults [0x70, 0x65, 0x65, 0x72, 5] (ExPeer 5 [0x61, 0x62]) []))
        [0x70, 0x65, 0x65, 0x72, 5] = Some [0x70, 0x65, 0x65, 0x72, 5]
   \<and> Find ex_collab no_faults 5
        (snd (Assign ex_collab no_faults [0x70, 0x65, 0x65, 0x72, 5] (ExPeer 5 [0x61, 0x62]) []))
       = (ExPeer 0 [], Some (Errorf ''unmarshal: %w'' [] (JSONError 0)))
   \<and> fst (Assign_r ex_collab no_faults [0x70, 0x65, 0x65, 0x72, 5] (ExPeer 5 [0x61, 0x62]) []) = None
   \<and> kv_get (snd (Assign_r ex_collab no_faults [0x70, 0x65, 0x65, 0x72, 5] (ExPeer 5 [0x61, 0x62]) []))
        [0x70, 0x65, 0x65, 0x72, 5] = Some [0x70, 0x65, 0x65, 0x72, 5]
   \<and> Find_r ex_collab no_faults 5
        (snd (Assign_r ex_collab no_faults [0x70, 0x65, 0x65, 0x72, 5] (ExPeer 5 [0x61, 0x62]) []))
       = (ExPeer 0 [], Some (Errorf ''unmarshal: %w'' [] (JSONError 0)))"
  by code_simp

text \<open>
  \<^bold>\<open>C8\<close>, amended: the storage does not keep an alias string from being a primary
  key; that is left to the callers of \<^verbatim>\<open>Assign\<close> and to \<^verbatim>\<open>Keys\<close>. For every
  sequence of \<^verbatim>\<open>Add\<close> and \<^verbatim>\<open>Assign\<close> calls from the empty store in which no alias
  string written (enumerated by \<^verbatim>\<open>Keys\<close> or given to \<^verbatim>\<open>Assign\<close>) is the primary key
  of a peer of the sequence, the store keeps the two kinds of entry apart: every
  entry under a primary key is a record entry, and every other entry is an alias
  entry whose value is the primary key of a record that is stored.
\<close>

theorem keys_separated:
  assumes "set (primary_keys c steps) \<inter> set (alias_keys c steps) = {}"
    and "set (primary_keys c steps) \<inter> set (alias_keys_r c steps) = {}"
  shows "separated c (set (primary_keys c steps)) (run c steps [])
       \<and> separated c (set (primary_keys c steps)) (run_r c steps [])"
  using assms separated_run [OF separated_empty, of c steps "set (primary_keys c steps)"]
    separated_run_r [OF separated_empty, of c steps "set (primary_keys c steps)"]
  by (auto simp: Int_commute)

theorem keys_separated_witness:
  "set (primary_keys ex_collab
          [(no_faults, CallAdd (ExPeer 5 [0x61, 0x62])), (no_faults, CallAssign [0x63, 0x64] (ExPeer 6 []))])
     \<inter> set (alias_keys ex_collab
          [(no_faults, CallAdd (ExPeer 5 [0x61, 0x62])), (no_faults, CallAssign [0x63, 0x64] (ExPeer 6 []))])
     = {}
   \<and> separated ex_collab
        (set (primary_keys ex_collab
          [(no_faults, CallAdd (ExPeer 5 [0x61, 0x62])), (no_faults, CallAssign [0x63, 0x64] (ExPeer 6 []))]))
        (run ex_collab
          [(no_faults, CallAdd (ExPeer 5 [0x61, 0x62])), (no_faults, CallAssign [0x63, 0x64] (ExPeer 6 []))] [])
   \<and> separated ex_collab
        (set (primary_keys ex_collab
          [(no_faults, CallAdd (ExPeer 5 [0x61, 0x62])), (no_faults, CallAssign [0x63, 0x64] (ExPeer 6 []))]))
        (run_r ex_collab
          [(no_faults, CallAdd (ExPeer 5 [0x61, 0x62])), (no_faults, CallAssign [0x63, 0x64] (ExPeer 6 []))] [])"
proof -
  let ?steps = "[(no_faults, CallAdd (ExPeer 5 [0x61, 0x62])),
                 (no_faults, CallAssign [0x63, 0x64] (ExPeer 6 []))]"
  have 1: "set (primary_keys ex_collab ?steps) \<inter> set (alias_keys ex_collab ?steps) = {}"
    by (simp add: primary_keys_def alias_keys_def primary_key_def ex_collab_def)
  have 2: "set (primary_keys ex_collab ?steps) \<inter> set (alias_keys_r ex_collab ?steps) = {}"
    by (simp add: primary_keys_def alias_keys_r_def primary_key_def ex_collab_def)
  from keys_separated [OF 1 2] 1 show ?thesis by simp
qed

subsection \<open>Propagation of errors\<close>

text \<open>
  \<^bold>\<open>C9\<close>, as claimed, fails. A store holds two records and the engine cannot read
  the second. The cursor yields the first record; then \<^verbatim>\<open>Next\<close> returns false, as it
  does at the end of the data, and \<^verbatim>\<open>Err()\<close> is nil: the engine's error is neither
  wrapped nor latched, and only \<^verbatim>\<open>Close()\<close> returns it, as it is. Nor is every
  other error wrapped: \<^verbatim>\<open>Find\<close> returns the error of closing the engine's closer
  as it is, together with the peer.
\<close>

theorem cursor_hides_engine_error:
  "snd (Iterate ex_collab
          (no_faults\<lparr>read_fault :=
             (\<lambda>k. if k = [0x70, 0x65, 0x65, 0x72, 6] then Some (EngineError 1) else None)\<rparr>)
          [([0x70, 0x65, 0x65, 0x72, 5], [0x7B, 5, 0x61, 0x62]),
           ([0x70, 0x65, 0x65, 0x72, 6], [0x7B, 6])]) = None
   \<and> fst (exhaust ex_collab (fst (Iterate ex_collab
          (no_faults\<lparr>read_fault :=
             (\<lambda>k. if k = [0x70, 0x65, 0x65, 0x72, 6] then Some (EngineError 1) else None)\<rparr>)
          [([0x70, 0x65, 0x65, 0x72, 5], [0x7B, 5, 0x61, 0x62]),
           ([0x70, 0x65, 0x65, 0x72, 6], [0x7B, 6])]))) = [ExPeer 5 [0x61, 0x62]]
   \<and> Iterator_Error (it_iter (snd (exhaust ex_collab (fst (Iterate ex_collab
          (no_faults\<lparr>read_fault :=
             (\<lambda>k. if k = [0x70, 0x65, 0x65, 0x72, 6] then Some (EngineError 1) else None)\<rparr>)
          [([0x70, 0x65, 0x65, 0x72, 5], [0x7B, 5, 0x61, 0x62]),
           ([0x70, 0x65, 0x65, 0x72, 6], [0x7B, 6])]))))) = Some (EngineError 1)
   \<and> pebbleIterator_Err (snd (exhaust ex_collab (fst (Iterate ex_collab
          (no_faults\<lparr>read_fault :=
             (\<lambda>k. if k = [0x70, 0x65, 0x65, 0x72, 6] then Some (EngineError 1) else None)\<rparr>)
          [([0x70, 0x65, 0x65, 0x72, 5], [0x7B, 5, 0x61, 0x62]),
           ([0x70, 0x65, 0x65, 0x72, 6], [0x7B, 6])])))) = None
   \<and> pebbleIterator_Close no_faults (snd (exhaust ex_collab (fst (Iterate ex_collab
          (no_faults\<lparr>read_fault :=
             (\<lambda>k. if k = [0x70, 0x65, 0x65, 0x72, 6] then Some (EngineError 1) else None)\<rparr>)
          [([0x70, 0x65, 0x65, 0x72, 5], [0x7B, 5, 0x61, 0x62]),
           ([0x70, 0x65, 0x65, 0x72, 6], [0x7B, 6])])))) = Some (EngineError 1)
   \<and> Find ex_collab (no_faults\<lparr>closer_fault := Some (EngineError 3)\<rparr>) 5
         [([0x70, 0x65, 0x65, 0x72, 5], [0x7B, 5, 0x61, 0x62])]
       = (ExPeer 5 [0x61, 0x62], Some (EngineError 3))"
  by code_simp

text \<open>
  \<^bold>\<open>C9\<close>, amended: every error of encoding, of the commit, of an engine read by
  \<^verbatim>\<open>Get\<close> (other than not-found) and of decoding that \<^verbatim>\<open>Add\<close>, \<^verbatim>\<open>Assign\<close>,
  \<^verbatim>\<open>Find\<close> or \<^verbatim>\<open>Resolve\<close> meets is wrapped with the operation's context (and the
  key, for a read) and returned, combined with the errors of releasing the batch, the
  closers and the snapshot, which are not wrapped; a decode error that the cursor
  meets is wrapped, ends the iteration and is latched for \<^verbatim>\<open>Err()\<close>.
\<close>

theorem errors_wrapped_and_returned:
  "(Marshal c p = Inl e \<longrightarrow>
      fst (add c f ks p db) = Some (Errorf ''marshal: %w'' [] e))
   \<and> (Marshal c p = Inr data \<and> commit_fault f = Some e \<longrightarrow>
      fst (add c f ks p db) =
        multierr_Append (Some (Errorf ''commit: %w'' [] e)) (batch_close_fault f))
   \<and> (read_fault f (Bytes c key) = Some e \<and> \<not> xerrors_Is e ErrNotFound \<longrightarrow>
      snd (Find c f key db) = Some (Errorf ''get %q: %w'' [Bytes c key] e))
   \<and> (DB_Get f db (Bytes c key) = Inr data
        \<and> snd (Unmarshal c data (zeroPeer c)) = Some e \<longrightarrow>
      snd (Find c f key db) =
        multierr_Append (Some (Errorf ''unmarshal: %w'' [] e)) (closer_fault f))
   \<and> (read_fault f a = Some e \<and> \<not> xerrors_Is e ErrNotFound \<longrightarrow>
      snd (Resolve c f a db) =
        multierr_Append (Some (Errorf ''get %q: %w'' [a] e)) (snap_close_fault f))
   \<and> (DB_Get f db a = Inr i \<and> read_fault f i = Some e \<and> \<not> xerrors_Is e ErrNotFound \<longrightarrow>
      snd (Resolve c f a db) =
        multierr_Append
          (multierr_Append (Some (Errorf ''get %q: %w'' [i] e)) (closer_fault f))
          (snap_close_fault f))
   \<and> (DB_Get f db a = Inr i \<and> DB_Get f db i = Inr data
        \<and> snd (Unmarshal c data (zeroPeer c)) = Some e \<longrightarrow>
      snd (Resolve c f a db) =
        multierr_Append
          (multierr_Append
             (multierr_Append (Some (Errorf ''unmarshal: %w'' [] e)) (closer_fault f))
             (closer_fault f))
          (snap_close_fault f))
   \<and> (Iterator_Valid (it_iter cur)
        \<and> HasPrefix (Iterator_Key (it_iter cur)) (KeyPrefix c)
        \<and> snd (Unmarshal c (Iterator_Value (it_iter cur)) (it_value cur)) = Some e \<longrightarrow>
      fst (pebbleIterator_Next c cur) = False
      \<and> pebbleIterator_Err (snd (pebbleIterator_Next c cur)) =
          Some (Errorf ''unmarshal: %w'' [] e))"
proof -
  have 1: "Marshal c p = Inl e \<Longrightarrow>
      fst (add c f ks p db) = Some (Errorf ''marshal: %w'' [] e)"
    by (simp add: add_def)
  have 2: "Marshal c p = Inr data \<Longrightarrow> commit_fault f = Some e \<Longrightarrow>
      fst (add c f ks p db) =
        multierr_Append (Some (Errorf ''commit: %w'' [] e)) (batch_close_fault f)"
    by (simp add: add_def Batch_Commit_def Let_def)
  have 3: "read_fault f (Bytes c key) = Some e \<Longrightarrow> \<not> xerrors_Is e ErrNotFound \<Longrightarrow>
      snd (Find c f key db) = Some (Errorf ''get %q: %w'' [Bytes c key] e)"
    by (simp add: Find_def DB_Get_def Let_def)
  have 4: "DB_Get f db (Bytes c key) = Inr data \<Longrightarrow>
      snd (Unmarshal c data (zeroPeer c)) = Some e \<Longrightarrow>
      snd (Find c f key db) =
        multierr_Append (Some (Errorf ''unmarshal: %w'' [] e)) (closer_fault f)"
    by (cases "Unmarshal c data (zeroPeer c)") (simp add: Find_def Let_def)
  have 5: "read_fault f a = Some e \<Longrightarrow> \<not> xerrors_Is e ErrNotFound \<Longrightarrow>
      snd (Resolve c f a db) =
        multierr_Append (Some (Errorf ''get %q: %w'' [a] e)) (snap_close_fault f)"
    by (simp add: Resolve_def DB_Get_def Let_def)
  have 6: "DB_Get f db a = Inr i \<Longrightarrow> read_fault f i = Some e \<Longrightarrow> \<not> xerrors_Is e ErrNotFound \<Longrightarrow>
      snd (Resolve c f a db) =
        multierr_Append
          (multierr_Append (Some (Errorf ''get %q: %w'' [i] e)) (closer_fault f))
          (snap_close_fault f)"
    by (simp add: Resolve_def Let_def) (simp add: DB_Get_def)
  have 7: "DB_Get f db a = Inr i \<Longrightarrow> DB_Get f db i = Inr data \<Longrightarrow>
      snd (Unmarshal c data (zeroPeer c)) = Some e \<Longrightarrow>
      snd (Resolve c f a db) =
        multierr_Append
          (multierr_Append
             (multierr_Append (Some (Errorf ''unmarshal: %w'' [] e)) (closer_fault f))
             (closer_fault f))
          (snap_close_fault f)"
    by (cases "Unmarshal c data (zeroPeer c)") (simp add: Resolve_def Let_def)
  note 8 = Next_decode_error [of cur c e]
  from 1 2 3 4 5 6 7 8 show ?thesis by blast
qed

theorem errors_wrapped_and_returned_witness:
  "fst (add (ex_collab\<lparr>Marshal := (\<lambda>p. Inl (JSONError 7))\<rparr>) no_faults [] (ExPeer 5 []) [])
     = Some (Errorf ''marshal: %w'' [] (JSONError 7))
   \<and> fst (add ex_collab (no_faults\<lparr>commit_fault := Some (EngineError 1)\<rparr>) [] (ExPeer 5 []) [])
     = Some (Errorf ''commit: %w'' [] (EngineError 1))
   \<and> snd (Find ex_collab (no_faults\<lparr>read_fault := (\<lambda>k. Some (EngineError 2))\<rparr>) 5 [])
     = Some (Errorf ''get %q: %w'' [[0x70, 0x65, 0x65, 0x72, 5]] (EngineError 2))
   \<and> snd (Find ex_collab no_faults 5 [([0x70, 0x65, 0x65, 0x72, 5], [0x00])])
     = Some (Errorf ''unmarshal: %w'' [] (JSONError 0))
   \<and> snd (Resolve ex_collab (no_faults\<lparr>read_fault := (\<lambda>k. Some (EngineError 2))\<rparr>) [0x61, 0x62] [])
     = Some (Errorf ''get %q: %w'' [[0x61, 0x62]] (EngineError 2))
   \<and> snd (Resolve ex_collab
            (no_faults\<lparr>read_fault :=
               (\<lambda>k. if k = [0x70, 0x65, 0x65, 0x72, 5] then Some (EngineError 2) else None)\<rparr>)
            [0x61, 0x62]
            [([0x61, 0x62], [0x70, 0x65, 0x65, 0x72, 5]), ([0x70, 0x65, 0x65, 0x72, 5], [0x00])])
     = Some (Errorf ''get %q: %w'' [[0x70, 0x65, 0x65, 0x72, 5]] (EngineError 2))
   \<and> snd (Resolve ex_collab no_faults [0x61, 0x62]
            [([0x61, 0x62], [0x70, 0x65, 0x65, 0x72, 5]), ([0x70, 0x65, 0x65, 0x72, 5], [0x00])])
     = Some (Errorf ''unmarshal: %w'' [] (JSONError 0))
   \<and> fst (pebbleIterator_Next ex_collab (fst (Iterate ex_collab no_faults
            [([0x61, 0x62], [0x70, 0x65, 0x65, 0x72, 5]), ([0x70, 0x65, 0x65, 0x72, 5], [0x00])])))
     = False
   \<and> pebbleIterator_Err (snd (pebbleIterator_Next ex_collab (fst (Iterate ex_collab no_faults
            [([0x61, 0x62], [0x70, 0x65, 0x65, 0x72, 5]), ([0x70, 0x65, 0x65, 0x72, 5], [0x00])]))))
     = Some (Errorf ''unmarshal: %w'' [] (JSONError 0))"
proof -
  let ?db = "[([0x61, 0x62], [0x70, 0x65, 0x65, 0x72, 5]), ([0x70, 0x65, 0x65, 0x72, 5], [0x00 :: byte])]"
  let ?k = "[0x70, 0x65, 0x65, 0x72, 5 :: byte]"
  let ?f2 = "no_faults\<lparr>read_fault := (\<lambda>k. Some (EngineError 2))\<rparr>"
  let ?f3 = "no_faults\<lparr>read_fault := (\<lambda>k. if k = ?k then Some (EngineError 2) else None)\<rparr>"
  let ?cur = "fst (Iterate ex_collab no_faults ?db)"
  have m: "Marshal (ex_collab\<lparr>Marshal := (\<lambda>p. Inl (JSONError 7))\<rparr>) (ExPeer 5 []) = Inl (JSONError 7)"
    by simp
  have 1: "fst (add (ex_collab\<lparr>Marshal := (\<lambda>p. Inl (JSONError 7))\<rparr>) no_faults [] (ExPeer 5 []) [])
           = Some (Errorf ''marshal: %w'' [] (JSONError 7))"
    using errors_wrapped_and_returned
      [of "ex_collab\<lparr>Marshal := (\<lambda>p. Inl (JSONError 7))\<rparr>" "ExPeer 5 []" "JSONError 7"
          no_faults "[]" "[]"] m
    by blast
  have m2: "Marshal ex_collab (ExPeer 5 []) = Inr [0x7B, 5]"
    by (simp add: ex_collab_def)
  have 2: "fst (add ex_collab (no_faults\<lparr>commit_fault := Some (EngineError 1)\<rparr>) [] (ExPeer 5 []) [])
           = Some (Errorf ''commit: %w'' [] (EngineError 1))"
    using errors_wrapped_and_returned
      [of ex_collab "ExPeer 5 []" "EngineError 1"
          "no_faults\<lparr>commit_fault := Some (EngineError 1)\<rparr>" "[]" "[]" "[0x7B, 5]"] m2
    by (simp add: no_faults_simps)
  have b: "Bytes ex_collab 5 = ?k" by (simp add: ex_collab_def)
  have 3: "snd (Find ex_collab ?f2 5 [])
           = Some (Errorf ''get %q: %w'' [?k] (EngineError 2))"
    using errors_wrapped_and_returned
      [of ex_collab _ "EngineError 2" ?f2 _ "[]" _ 5]
    by (simp add: b)
  have g1: "DB_Get no_faults ?db ?k = Inr [0x00]"
    by (simp add: DB_Get_def kv_get_def no_faults_simps)
  have g0: "DB_Get no_faults [(?k, [0x00])] ?k = Inr [0x00]"
    by (simp add: DB_Get_def kv_get_def no_faults_simps)
  have u: "snd (Unmarshal ex_collab [0x00] (zeroPeer ex_collab)) = Some (JSONError 0)"
    by (simp add: ex_collab_def)
  have 4: "snd (Find ex_collab no_faults 5 [(?k, [0x00])])
           = Some (Errorf ''unmarshal: %w'' [] (JSONError 0))"
    using errors_wrapped_and_returned
      [of ex_collab _ "JSONError 0" no_faults _ "[(?k, [0x00])]" "[0x00]" 5] g0 u
    by (simp add: b no_faults_simps)
  have 5: "snd (Resolve ex_collab ?f2 [0x61, 0x62] [])
           = Some (Errorf ''get %q: %w'' [[0x61, 0x62]] (EngineError 2))"
    using errors_wrapped_and_returned
      [of ex_collab _ "EngineError 2" ?f2 _ "[]" _ _ "[0x61, 0x62]"]
    by (simp add: no_faults_simps)
  have g3: "DB_Get ?f3 ?db [0x61, 0x62] = Inr ?k"
    by (simp add: DB_Get_def kv_get_def no_faults_simps)
  have 6: "snd (Resolve ex_collab ?f3 [0x61, 0x62] ?db)
           = Some (Errorf ''get %q: %w'' [?k] (EngineError 2))"
    using errors_wrapped_and_returned
      [of ex_collab _ "EngineError 2" ?f3 _ ?db _ _ "[0x61, 0x62]" ?k] g3
    by (simp add: no_faults_simps)
  have g4: "DB_Get no_faults ?db [0x61, 0x62] = Inr ?k"
    by (simp add: DB_Get_def kv_get_def no_faults_simps)
  have 7: "snd (Resolve ex_collab no_faults [0x61, 0x62] ?db)
           = Some (Errorf ''unmarshal: %w'' [] (JSONError 0))"
    using errors_wrapped_and_returned
      [of ex_collab _ "JSONError 0" no_faults _ ?db "[0x00]" _ "[0x61, 0x62]" ?k] g4 g1 u
    by (simp add: no_faults_simps)
  have r: "remaining (it_iter ?cur) = [(?k, [0x00])]"
    by (simp add: Iterate_remaining prefixed_def ex_collab_def)
  have v: "Iterator_Valid (it_iter ?cur)"
    by (simp add: Iterator_Valid_def Iterator_Error_def r Iterate_fields no_faults_simps)
  have hp: "HasPrefix (Iterator_Key (it_iter ?cur)) (KeyPrefix ex_collab)"
    by (simp add: Iterator_Key_def r) (simp add: ex_collab_def)
  have uv: "snd (Unmarshal ex_collab (Iterator_Value (it_iter ?cur)) (it_value ?cur)) = Some (JSONError 0)"
    by (simp add: Iterator_Value_def r) (simp add: ex_collab_def)
  have 8: "fst (pebbleIterator_Next ex_collab ?cur) = False
           \<and> pebbleIterator_Err (snd (pebbleIterator_Next ex_collab ?cur))
               = Some (Errorf ''unmarshal: %w'' [] (JSONError 0))"
    using errors_wrapped_and_returned [of ex_collab _ "JSONError 0" _ _ _ _ _ _ _ ?cur] v hp uv
    by blast
  from 1 2 3 4 5 6 7 8 show ?thesis by simp
qed

section \<open>Further properties\<close>

text \<open>
  The bounds that \<^verbatim>\<open>prefixIterOptions\<close> gives an iterator select the keys that
  begin with the prefix, and no other key: the loop in \<^verbatim>\<open>Next\<close> that skips keys
  without the prefix never has a key to skip.
\<close>

theorem prefix_range:
  "in_range (fst (prefixIterOptions pre)) (snd (prefixIterOptions pre)) k = HasPrefix k pre"
  by (simp add: prefixIterOptions_def in_range_prefix)

text \<open>
  Explicit assignment: after \<^verbatim>\<open>Assign(key, p)\<close> has succeeded, \<^verbatim>\<open>Resolve(key)\<close>
  returns what the encoding of \<open>p\<close> decodes to, also when \<open>key\<close> is not one of the
  aliases of \<open>p\<close>; the primary key of \<open>p\<close> is neither \<open>key\<close> nor one of those
  aliases.
\<close>

theorem Resolve_after_Assign:
  assumes ok: "Assign c f key p db = (None, db')"
    and enc: "Marshal c p = Inr data"
    and dec: "Unmarshal c data (zeroPeer c) = (q, None)"
    and nocoll: "Bytes c (KeyFromPeer c p) \<notin> set (Keys c p)" "key \<noteq> Bytes c (KeyFromPeer c p)"
    and rd: "read_fault f key = None" "read_fault f (Bytes c (KeyFromPeer c p)) = None"
    and cl: "closer_fault f = None" "snap_close_fault f = None"
  shows "Resolve c f key db' = (q, None)"
proof -
  from add_success [OF ok [unfolded Assign_def]] enc
  have db': "db' = Batch_apply ((Bytes c (KeyFromPeer c p), data) #
               map (\<lambda>key. (key, Bytes c (KeyFromPeer c p))) (Keys c p @ [key])) db"
    by simp
  have 1: "kv_get db' key = Some (Bytes c (KeyFromPeer c p))"
    by (simp only: db' kv_get_Batch_apply_add) simp
  have 2: "kv_get db' (Bytes c (KeyFromPeer c p)) = Some data"
    using nocoll by (simp only: db' kv_get_Batch_apply_add) simp
  show ?thesis using 1 2 rd cl dec by (rule Resolve_hit)
qed

theorem Resolve_after_Assign_witness:
  "fst (Assign ex_collab no_faults [0x63, 0x64] (ExPeer 5 [0x61, 0x62]) []) = None
   \<and> [0x63, 0x64] \<notin> set (Keys ex_collab (ExPeer 5 [0x61, 0x62]))
   \<and> Resolve ex_collab no_faults [0x63, 0x64]
        (snd (Assign ex_collab no_faults [0x63, 0x64] (ExPeer 5 [0x61, 0x62]) []))
       = (ExPeer 5 [0x61, 0x62], None)"
proof -
  let ?p = "ExPeer 5 [0x61, 0x62]"
  have ok: "Assign ex_collab no_faults [0x63, 0x64] ?p [] =
            (None, snd (Assign ex_collab no_faults [0x63, 0x64] ?p []))"
    by code_simp
  have okf: "fst (Assign ex_collab no_faults [0x63, 0x64] ?p []) = None"
    by code_simp
  have enc: "Marshal ex_collab ?p = Inr [0x7B, 5, 0x61, 0x62]"
    by (simp add: ex_collab_def)
  have dec: "Unmarshal ex_collab [0x7B, 5, 0x61, 0x62] (zeroPeer ex_collab) = (?p, None)"
    by (simp add: ex_collab_def)
  have nocoll: "Bytes ex_collab (KeyFromPeer ex_collab ?p) \<notin> set (Keys ex_collab ?p)"
    "[0x63, 0x64] \<noteq> Bytes ex_collab (KeyFromPeer ex_collab ?p)"
    by (simp_all add: ex_collab_def)
  have nk: "[0x63, 0x64] \<notin> set (Keys ex_collab ?p)"
    by (simp add: ex_collab_def)
  have "Resolve ex_collab no_faults [0x63, 0x64]
          (snd (Assign ex_collab no_faults [0x63, 0x64] ?p [])) = (?p, None)"
    by (rule Resolve_after_Assign [OF ok enc dec nocoll]) (simp_all add: no_faults_simps)
  with okf nk show ?thesis by simp
qed

end
